theory Spec2Isabelle
  imports Complex_Main "HOL-Library.Multiset"
begin

section \<open>mtnormalise: multi-tissue informed log-domain intensity normalisation\<close>

text \<open>
  A shallow embedding of \<^verbatim>\<open>src/cmd/mtnormalise.cpp\<close>.

  Conventions of the model.
  \<^item> A 3-D image is the list of its voxel values in the order in which \<^verbatim>\<open>Loop (0, 3)\<close>
    visits them; a 4-D image holds, for each voxel, the row along axis 3.
  \<^item> The parallel \<^verbatim>\<open>ThreadedLoop\<close>s are run in that same order, one voxel after the other.
  \<^item> A finite \<^verbatim>\<open>float\<close> or \<^verbatim>\<open>double\<close> value is a real number. Where the program compares,
    counts with or indexes by a value that it has rounded to single precision, the model
    rounds it too (\<open>round_float\<close>: IEEE binary32, to nearest, ties to even): the sum of the
    input images, the \<^verbatim>\<open>summed_log\<close> image, the quartile iterators and the outlier
    thresholds, each arithmetic operation being rounded on its own. The \<^verbatim>\<open>double\<close>
    arithmetic of the solver and the arithmetic of the field, of the scale and of the
    output images are exact in the model. The values read from the input images keep the
    three non-finite cases of IEEE arithmetic (type \<open>fval\<close>), because the program tests for
    them.
  \<^item> A C++ exception is a value \<open>Inl (Exception e)\<close>; a read through an iterator that is
    not dereferenceable is the value \<open>Inl Undefined\<close>.
\<close>

subsection \<open>Image values\<close>

datatype fval = Fin real | PInf | NInf | NaN

text \<open>
  Rounding to single precision (IEEE binary32, round to nearest, ties to even). A real
  number is rounded to the nearest multiple of the spacing of the floats around it, a
  halfway case to the even multiple. \<open>binade x\<close> is the exponent \<open>e\<close> for which \<open>\<bar>x\<bar>\<close> lies
  between \<open>2 powi e\<close> and \<open>2 powi (e + 1)\<close>; the significand has 24 bits, so the spacing is
  \<open>2 powi (e - 23)\<close>, and below \<open>2 powi (- 126)\<close> it stays that of the subnormal numbers.
  \<open>round_float\<close> has no largest exponent; \<open>to_float\<close> adds the overflow to an infinity,
  which happens when the rounded value reaches \<open>2 ^ 128\<close>.
\<close>

definition round_ties_even :: "real \<Rightarrow> int" where
  "round_ties_even x =
     (let f = \<lfloor>x\<rfloor>; d = x - of_int f
      in if d < 1/2 then f else if 1/2 < d then f + 1 else if even f then f else f + 1)"

definition binade :: "real \<Rightarrow> int" where
  "binade x = \<lfloor>log 2 \<bar>x\<bar>\<rfloor>"

definition quantum :: "real \<Rightarrow> real" where
  "quantum x = 2 powi (max (binade x) (- 126) - 23)"

definition round_float :: "real \<Rightarrow> real" where
  "round_float x = (if x = 0 then 0 else of_int (round_ties_even (x / quantum x)) * quantum x)"

definition to_float :: "real \<Rightarrow> fval" where
  "to_float x =
     (let r = round_float x
      in if 2 ^ 128 \<le> r then PInf else if r \<le> - (2 ^ 128) then NInf else Fin r)"

text \<open>\<^verbatim>\<open>a + b\<close> on floats.\<close>

fun fadd :: "fval \<Rightarrow> fval \<Rightarrow> fval" where
  "fadd (Fin a) (Fin b) = to_float (a + b)"
| "fadd NaN _ = NaN"
| "fadd _ NaN = NaN"
| "fadd PInf NInf = NaN"
| "fadd NInf PInf = NaN"
| "fadd PInf _ = PInf"
| "fadd _ PInf = PInf"
| "fadd NInf _ = NInf"
| "fadd _ NInf = NInf"

text \<open>\<^verbatim>\<open>std::isfinite (a)\<close>, \<^verbatim>\<open>a > 0.f\<close> and \<^verbatim>\<open>a < 0.f\<close>: every comparison with NaN is false.\<close>

fun isfinite :: "fval \<Rightarrow> bool" where
  "isfinite (Fin a) = True"
| "isfinite _ = False"

fun fgt0 :: "fval \<Rightarrow> bool" where
  "fgt0 (Fin a) = (a > 0)"
| "fgt0 PInf = True"
| "fgt0 _ = False"

fun flt0 :: "fval \<Rightarrow> bool" where
  "flt0 (Fin a) = (a < 0)"
| "flt0 NInf = True"
| "flt0 _ = False"

text \<open>\<^verbatim>\<open>std::max<float> (a, 0.f)\<close>, which is \<^verbatim>\<open>(a < 0.f) ? 0.f : a\<close>.\<close>

definition fmax0 :: "fval \<Rightarrow> fval" where
  "fmax0 a = (if flt0 a then Fin 0 else a)"

text \<open>\<^verbatim>\<open>a * m / d\<close> for a float \<open>a\<close> and finite \<open>m\<close>, \<open>d\<close>.\<close>

fun fscale :: "fval \<Rightarrow> real \<Rightarrow> real \<Rightarrow> fval" where
  "fscale (Fin a) m d = Fin (a * m / d)"
| "fscale NaN m d = NaN"
| "fscale PInf m d = (if m / d > 0 then PInf else if m / d < 0 then NInf else NaN)"
| "fscale NInf m d = (if m / d > 0 then NInf else if m / d < 0 then PInf else NaN)"

text \<open>
  The value the solver computes with. At a voxel of the initial mask every tissue value
  is finite (lemma \<open>initial_mask_finite\<close> below); elsewhere the real number is arbitrary.
\<close>

fun to_real :: "fval \<Rightarrow> real" where
  "to_real (Fin a) = a"
| "to_real _ = 0"

subsection \<open>Aborts\<close>

datatype exn =
    MaskNoValidVoxels
  | NonPositiveBalanceFactor nat real

datatype abort = Exception exn | Undefined

text \<open>The text of the exception; \<open>str\<close> prints the two numbers of the second one.\<close>

fun what :: "(nat \<Rightarrow> string) \<Rightarrow> (real \<Rightarrow> string) \<Rightarrow> exn \<Rightarrow> string" where
  "what strn strr MaskNoValidVoxels = ''Mask contains no valid voxels.''"
| "what strn strr (NonPositiveBalanceFactor j b) =
     ''Non-positive tissue balance factor was computed.'' @
     '' Tissue index: '' @ strn j @ '' Balance factor: '' @ strr b @
     '' Needs to be strictly positive!''"

subsection \<open>Quartile selection\<close>

text \<open>\<^verbatim>\<open>std::round\<close>: to the nearest integer, halfway cases away from zero.\<close>

definition cpp_round :: "real \<Rightarrow> int" where
  "cpp_round x = (if x \<ge> 0 then \<lfloor>x + 1/2\<rfloor> else \<lceil>x - 1/2\<rceil>)"

text \<open>
  \<^verbatim>\<open>summed_log_values.begin() + std::round ((float)num_voxels * q)\<close>: the offset of the
  iterator. The cast of the \<^verbatim>\<open>size_t\<close> rounds to single precision and so does the product
  with the \<^verbatim>\<open>float\<close> constant \<open>q\<close>; \<^verbatim>\<open>std::round\<close> of a \<^verbatim>\<open>float\<close> is exact.
\<close>

definition quartile_index :: "nat \<Rightarrow> real \<Rightarrow> nat" where
  "quartile_index n q = nat (cpp_round (round_float (round_float (real n) * q)))"

text \<open>
  \<^verbatim>\<open>std::nth_element (first, nth, last)\<close> of the C++ library, \<open>last\<close> being the end of
  the vector: it permutes the elements from \<open>first\<close> on so that the one at position \<open>n\<close> is
  the one a sort of that range would put there, none before it is greater and none after
  it is smaller. The library leaves the rest of the order open; the model takes the
  sorted range, which is one such permutation (lemma \<open>nth_element_contract\<close>).
\<close>

definition nth_element :: "nat \<Rightarrow> nat \<Rightarrow> real list \<Rightarrow> real list" where
  "nth_element first n xs = take first xs @ sort (drop first xs)"

text \<open>\<^verbatim>\<open>*it\<close> for \<open>it = xs.begin() + i\<close>: defined only before the end.\<close>

definition deref :: "real list \<Rightarrow> nat \<Rightarrow> abort + real" where
  "deref xs i = (if i < length xs then Inr (xs ! i) else Inl Undefined)"

text \<open>Lines 456 to 461: the two quartiles of the collected values.\<close>

definition quartiles :: "real list \<Rightarrow> abort + (real \<times> real)" where
  "quartiles summed_log_values =
     (let num_voxels = length summed_log_values;
          lower_quartile_it = quartile_index num_voxels 0.25;
          vs1 = nth_element 0 lower_quartile_it summed_log_values
      in case deref vs1 lower_quartile_it of
           Inl a \<Rightarrow> Inl a
         | Inr lower_quartile \<Rightarrow>
             (let upper_quartile_it = quartile_index num_voxels 0.75;
                  vs2 = nth_element lower_quartile_it upper_quartile_it vs1
              in case deref vs2 upper_quartile_it of
                   Inl a \<Rightarrow> Inl a
                 | Inr upper_quartile \<Rightarrow> Inr (lower_quartile, upper_quartile)))"

text \<open>
  Lines 462 and 463: three \<^verbatim>\<open>float\<close> operations each, the difference, the product and
  the sum, every one rounded to single precision.
\<close>

definition lower_outlier_threshold :: "real \<Rightarrow> real \<Rightarrow> real \<Rightarrow> real" where
  "lower_outlier_threshold outlier_range lower_quartile upper_quartile =
     round_float (lower_quartile -
       round_float (outlier_range * round_float (upper_quartile - lower_quartile)))"

definition upper_outlier_threshold :: "real \<Rightarrow> real \<Rightarrow> real \<Rightarrow> real" where
  "upper_outlier_threshold outlier_range lower_quartile upper_quartile =
     round_float (upper_quartile +
       round_float (outlier_range * round_float (upper_quartile - lower_quartile)))"

text \<open>Lines 449 to 452: the values of the active voxels, in loop order.\<close>

fun collect :: "bool list \<Rightarrow> real list \<Rightarrow> real list" where
  "collect (m # ms) (s # ss) = (if m then s # collect ms ss else collect ms ss)"
| "collect _ _ = []"

text \<open>
  Lines 466 to 473: the loop over the voxels that clears the mask at the outliers and
  counts \<open>num_voxels\<close> down (a \<^verbatim>\<open>size_t\<close>).
\<close>

fun threshold_loop :: "real \<Rightarrow> real \<Rightarrow> bool list \<Rightarrow> real list \<Rightarrow> nat \<Rightarrow> bool list \<times> nat" where
  "threshold_loop lo up (m # ms) (s # ss) nv =
     (if m \<and> (s < lo \<or> s > up)
      then (case threshold_loop lo up ms ss (nv - 1) of (ms', nv') \<Rightarrow> (False # ms', nv'))
      else (case threshold_loop lo up ms ss nv of (ms', nv') \<Rightarrow> (m # ms', nv')))"
| "threshold_loop lo up ms ss nv = (ms, nv)"

text \<open>
  Lines 445 to 473 of the \<^verbatim>\<open>outlier_rejection\<close> lambda, for a given \<open>summed_log\<close> image:
  the working mask is a copy of \<open>initial_mask\<close>, the values of its voxels are collected,
  \<open>num_voxels\<close> becomes their number, and the mask is thresholded. The result is the new
  mask and the new \<open>num_voxels\<close>.
\<close>

definition outlier_pass :: "real \<Rightarrow> bool list \<Rightarrow> real list \<Rightarrow> abort + (bool list \<times> nat)" where
  "outlier_pass outlier_range initial_mask summed_log =
     (let mask = initial_mask;
          summed_log_values = collect mask summed_log;
          num_voxels = length summed_log_values
      in case quartiles summed_log_values of
           Inl a \<Rightarrow> Inl a
         | Inr (lower_quartile, upper_quartile) \<Rightarrow>
             Inr (threshold_loop
                    (lower_outlier_threshold outlier_range lower_quartile upper_quartile)
                    (upper_outlier_threshold outlier_range lower_quartile upper_quartile)
                    mask summed_log num_voxels))"

subsection \<open>Basis functions\<close>

fun GetBasisVecs :: "int \<Rightarrow> nat" where
  "GetBasisVecs order = (if order = 0 then 1 else if order = 1 then 4 else if order = 2 then 10 else 20)"

text \<open>\<^verbatim>\<open>PolyBasisFunction::operator ()\<close>, for a functor built with \<open>n_basis_vecs\<close>.\<close>

fun PolyBasisFunction :: "nat \<Rightarrow> real \<times> real \<times> real \<Rightarrow> real list" where
  "PolyBasisFunction n_basis_vecs (x, y, z) =
     (if n_basis_vecs < 4 then [1]
      else if n_basis_vecs < 10 then [1, x, y, z]
      else if n_basis_vecs < 20 then [1, x, y, z, x * x, y * y, z * z, x * y, x * z, y * z]
      else [1, x, y, z, x * x, y * y, z * z, x * y, x * z, y * z,
            x * x * x, y * y * y, z * z * z, x * x * y, x * x * z, y * y * x, y * y * z,
            z * z * x, z * z * y, x * y * z])"

subsection \<open>The linear solver\<close>

text \<open>
  A matrix is the list of its rows. \<open>X.cols()\<close> is passed along with \<open>X\<close>, since a matrix
  without rows does not determine it.

  \<^verbatim>\<open>X.transpose() * X\<close> and \<^verbatim>\<open>X.transpose() * y\<close>:
\<close>

definition XtX :: "nat \<Rightarrow> real list list \<Rightarrow> real list list" where
  "XtX n X = map (\<lambda>i. map (\<lambda>j. (\<Sum>r\<leftarrow>X. r ! i * r ! j)) [0..<n]) [0..<n]"

definition Xty :: "nat \<Rightarrow> real list list \<Rightarrow> real list \<Rightarrow> real list" where
  "Xty n X y = map (\<lambda>i. (\<Sum>(r, v)\<leftarrow>zip X y. r ! i * v)) [0..<n]"

text \<open>
  \<^verbatim>\<open>M.llt()\<close> is Eigen's \<^verbatim>\<open>LLT<MatrixXd, Lower>\<close>, library code outside the repository. The
  model follows its in-place algorithm (\<^verbatim>\<open>llt_inplace<Scalar, Lower>::unblocked\<close>): column
  \<open>k\<close> of the lower triangle is overwritten with column \<open>k\<close> of the factor; at the first
  pivot that is not positive the factorisation stops, leaves the rest of the matrix as it
  is and records \<^verbatim>\<open>NumericalIssue\<close> as its \<^verbatim>\<open>info()\<close>. Nothing is thrown. (From 32 rows
  on Eigen works on blocks of columns; it computes the same factor when it succeeds. The
  matrices here have as many rows as there are tissues, or at most 20.)
\<close>

datatype ComputationInfo = Success | NumericalIssue

record LLT =
  m_matrix :: "real list list"
  m_info :: ComputationInfo

definition llt_column :: "nat \<Rightarrow> real \<Rightarrow> real list list \<Rightarrow> real list list" where
  "llt_column k x mat =
     map (\<lambda>i. if i = k then (mat ! k)[k := x]
               else if i > k
               then (mat ! i)[k := ((mat ! i) ! k - (\<Sum>j\<leftarrow>[0..<k]. (mat ! i) ! j * (mat ! k) ! j)) / x]
               else mat ! i)
         [0..<length mat]"

function unblocked :: "nat \<Rightarrow> real list list \<Rightarrow> LLT" where
  "unblocked k mat =
     (if k < length mat
      then (let x = (mat ! k) ! k - (\<Sum>j\<leftarrow>[0..<k]. ((mat ! k) ! j)\<^sup>2)
            in if x \<le> 0 then \<lparr>m_matrix = mat, m_info = NumericalIssue\<rparr>
               else unblocked (k + 1) (llt_column k (sqrt x) mat))
      else \<lparr>m_matrix = mat, m_info = Success\<rparr>)"
  by pat_completeness auto
termination
  by (relation "measure (\<lambda>(k, mat). length mat - k)") (auto simp: llt_column_def)

declare unblocked.simps [simp del]

definition llt :: "real list list \<Rightarrow> LLT" where
  "llt M = unblocked 0 M"

text \<open>
  \<^verbatim>\<open>LLT::solve\<close>: \<^verbatim>\<open>matrixL().solveInPlace (dst)\<close>, then \<^verbatim>\<open>matrixU().solveInPlace (dst)\<close>, on
  whatever \<^verbatim>\<open>m_matrix\<close> holds; \<^verbatim>\<open>info()\<close> is not read. \<open>matrixU\<close> is the transpose of the
  lower triangle. (A division by a diagonal entry that is zero gives an infinity or a NaN
  in the program and 0 in the model; a factorisation that succeeds has none, and neither
  have the examples below.)
\<close>

fun solveL :: "real list list \<Rightarrow> nat \<Rightarrow> real list \<Rightarrow> real list" where
  "solveL L 0 dst = dst"
| "solveL L (Suc i) dst =
     (let d = solveL L i dst
      in d[i := (d ! i - (\<Sum>j\<leftarrow>[0..<i]. (L ! i) ! j * d ! j)) / (L ! i) ! i])"

function solveU :: "real list list \<Rightarrow> nat \<Rightarrow> real list \<Rightarrow> real list" where
  "solveU L i dst =
     (if i < length dst
      then (let d = solveU L (i + 1) dst
            in d[i := (d ! i - (\<Sum>j\<leftarrow>[i + 1..<length dst]. (L ! j) ! i * d ! j)) / (L ! i) ! i])
      else dst)"
  by pat_completeness auto
termination
  by (relation "measure (\<lambda>(L, i, dst). length dst - i)") auto

declare solveU.simps [simp del]

definition solve :: "LLT \<Rightarrow> real list \<Rightarrow> real list" where
  "solve f rhs = solveU (m_matrix f) 0 (solveL (m_matrix f) (length rhs) rhs)"

text \<open>The function \<^verbatim>\<open>Choleski\<close>, lines 294 to 301.\<close>

definition Choleski :: "nat \<Rightarrow> real list list \<Rightarrow> real list \<Rightarrow> real list" where
  "Choleski cols X y =
     (let M = XtX cols X;
          alpha = Xty cols X y;
          res = solve (llt M) alpha
      in res)"

subsection \<open>The state of \<^verbatim>\<open>run\<close>\<close>

text \<open>
  What \<^verbatim>\<open>run\<close> sets up once and only reads afterwards. \<open>combined_tissue\<close> holds, for each
  voxel, the zero-clamped value of every tissue; \<open>scanner_pos\<close> holds, for each voxel,
  \<^verbatim>\<open>transform.voxel2scanner * vox\<close>.
\<close>

record env =
  n_tissue_types :: nat
  combined_tissue :: "real list list"
  initial_mask :: "bool list"
  scanner_pos :: "(real \<times> real \<times> real) list"
  n_basis_vecs :: nat
  log_ref_value :: real
  max_iter :: nat

text \<open>
  The trace records the two numbered log lines of the loops (\<open>Iteration\<close>, \<open>Balance_pass\<close>)
  and, as ghost events, the entry into the balance estimation, every call of
  \<^verbatim>\<open>outlier_rejection\<close> with its argument, the value of \<^verbatim>\<open>balance_converged\<close> after the
  comparison of the masks and the field fit.
\<close>

datatype event =
    Iteration nat
  | Balance_pass nat
  | Estimate_balance
  | Outlier_rejection real
  | Balance_converged bool
  | Fit_field

record state =
  mask :: "bool list"
  prev_mask :: "bool list"
  num_voxels :: nat
  balance_factors :: "real list"
  norm_field_weights :: "real list"
  norm_field_log :: "real list"
  norm_field_image :: "real list"
  trace :: "event list"


definition DEFAULT_BALANCE_MAXITER_VALUE :: nat where
  "DEFAULT_BALANCE_MAXITER_VALUE = 7"

definition max_balance_iter :: nat where
  "max_balance_iter = DEFAULT_BALANCE_MAXITER_VALUE"

subsection \<open>Outlier rejection\<close>

text \<open>
  Lines 434 to 442: \<^verbatim>\<open>s += balance_factors[j] * comb.value() / field.value()\<close> over the
  tissues, then \<^verbatim>\<open>std::log (s)\<close>, stored in the \<^verbatim>\<open>float\<close> image \<^verbatim>\<open>summed_log\<close>: the value
  of the voxel is a single-precision number. (Where \<open>s\<close> is not positive the program gets
  an infinity or a NaN and the model some real number; at a voxel of the initial mask \<open>s\<close>
  is positive as long as the balance factors and the field are.)
\<close>

definition summed_log_value :: "real list \<Rightarrow> real list \<Rightarrow> real \<Rightarrow> real" where
  "summed_log_value bf comb field =
     round_float (ln (foldl (\<lambda>s (b, c). s + b * c / field) 0 (zip bf comb)))"

definition outlier_rejection :: "env \<Rightarrow> real \<Rightarrow> state \<Rightarrow> abort + state" where
  "outlier_rejection e outlier_range s =
     (let summed_log = map2 (summed_log_value (balance_factors s))
                            (combined_tissue e) (norm_field_image s)
      in case outlier_pass outlier_range (initial_mask e) summed_log of
           Inl a \<Rightarrow> Inl a
         | Inr (m, nv) \<Rightarrow>
             Inr (s\<lparr>mask := m, num_voxels := nv,
                    trace := trace s @ [Outlier_rejection outlier_range]\<rparr>))"

subsection \<open>Balance factors\<close>

text \<open>The rows of a matrix that is filled at the active voxels only.\<close>

fun masked :: "bool list \<Rightarrow> 'a list \<Rightarrow> 'a list" where
  "masked (m # ms) (x # xs) = (if m then x # masked ms xs else masked ms xs)"
| "masked _ _ = []"

text \<open>Lines 549 to 556: the check of the factors and the sum of their logarithms.\<close>

fun log_sum_loop :: "nat \<Rightarrow> real list \<Rightarrow> real \<Rightarrow> abort + real" where
  "log_sum_loop j [] log_sum = Inr log_sum"
| "log_sum_loop j (b # bs) log_sum =
     (if b \<le> 0 then Inl (Exception (NonPositiveBalanceFactor (j + 1) b))
      else log_sum_loop (j + 1) bs (log_sum + ln b))"

text \<open>Lines 520 to 557: the body of \<^verbatim>\<open>if (n_tissue_types > 1)\<close>.\<close>

definition balance_X :: "env \<Rightarrow> state \<Rightarrow> real list list" where
  "balance_X e s =
     masked (mask s) (map2 (\<lambda>comb field. map (\<lambda>c. c / field) comb)
                           (combined_tissue e) (norm_field_image s))"

definition estimate_balance :: "env \<Rightarrow> state \<Rightarrow> abort + state" where
  "estimate_balance e s =
     (let X = balance_X e s;
          y = replicate (num_voxels s) 1;
          bf = Choleski (n_tissue_types e) X y
      in case log_sum_loop 0 bf 0 of
           Inl a \<Rightarrow> Inl a
         | Inr log_sum \<Rightarrow>
             Inr (s\<lparr>balance_factors := map (\<lambda>b. b / exp (log_sum / real (n_tissue_types e))) bf,
                    trace := trace s @ [Estimate_balance]\<rparr>))"

text \<open>Lines 516 to 583: one pass of the balance loop; it returns \<^verbatim>\<open>balance_converged\<close>.\<close>

definition balance_pass :: "env \<Rightarrow> nat \<Rightarrow> state \<Rightarrow> abort + (bool \<times> state)" where
  "balance_pass e balance_iter s =
     (let s0 = s\<lparr>trace := trace s @ [Balance_pass balance_iter]\<rparr>
      in case (if n_tissue_types e > 1 then estimate_balance e s0 else Inr s0) of
           Inl a \<Rightarrow> Inl a
         | Inr s1 \<Rightarrow>
             (case outlier_rejection e 1.5 s1 of
                Inl a \<Rightarrow> Inl a
              | Inr s2 \<Rightarrow>
                  (let balance_converged = (mask s2 = prev_mask s2)
                   in Inr (balance_converged,
                           s2\<lparr>prev_mask := mask s2,
                              trace := trace s2 @ [Balance_converged balance_converged]\<rparr>))))"

function balance_loop :: "env \<Rightarrow> nat \<Rightarrow> bool \<Rightarrow> state \<Rightarrow> abort + state" where
  "balance_loop e balance_iter balance_converged s =
     (if \<not> balance_converged \<and> balance_iter \<le> max_balance_iter
      then (case balance_pass e balance_iter s of
              Inl a \<Rightarrow> Inl a
            | Inr (c, s') \<Rightarrow> balance_loop e (balance_iter + 1) c s')
      else Inr s)"
  by pat_completeness auto
termination
  by (relation "measure (\<lambda>(e, balance_iter, c, s). max_balance_iter + 1 - balance_iter)") auto

declare balance_loop.simps [simp del]

subsection \<open>The normalisation field\<close>

text \<open>Lines 587 to 624.\<close>

definition field_y :: "env \<Rightarrow> state \<Rightarrow> real list" where
  "field_y e s =
     masked (mask s)
       (map (\<lambda>comb. ln (foldl (\<lambda>sum (b, c). sum + b * c) 0 (zip (balance_factors s) comb))
                     - log_ref_value e)
            (combined_tissue e))"

definition field_basis :: "env \<Rightarrow> state \<Rightarrow> real list list" where
  "field_basis e s = masked (mask s) (map (PolyBasisFunction (n_basis_vecs e)) (scanner_pos e))"

definition dot :: "real list \<Rightarrow> real list \<Rightarrow> real" where
  "dot a b = (\<Sum>(u, v)\<leftarrow>zip a b. u * v)"

definition fit_field :: "env \<Rightarrow> state \<Rightarrow> state" where
  "fit_field e s =
     (let w = Choleski (n_basis_vecs e) (field_basis e s) (field_y e s);
          nfl = map (\<lambda>pos. dot (PolyBasisFunction (n_basis_vecs e) pos) w) (scanner_pos e)
      in s\<lparr>norm_field_weights := w,
           norm_field_log := nfl,
           norm_field_image := map exp nfl,
           trace := trace s @ [Fit_field]\<rparr>)"

subsection \<open>The iterations\<close>

text \<open>Lines 506 to 628.\<close>

function outer_loop :: "env \<Rightarrow> nat \<Rightarrow> state \<Rightarrow> abort + state" where
  "outer_loop e iter s =
     (if iter \<le> max_iter e
      then (case balance_loop e 1 False (s\<lparr>trace := trace s @ [Iteration iter]\<rparr>) of
              Inl a \<Rightarrow> Inl a
            | Inr s' \<Rightarrow> outer_loop e (iter + 1) (fit_field e s'))
      else Inr s)"
  by pat_completeness auto
termination
  by (relation "measure (\<lambda>(e, iter, s). max_iter e + 1 - iter)") auto

declare outer_loop.simps [simp del]

text \<open>Lines 501 to 628: the coarse rejection, the copy of the mask and the iterations.\<close>

definition iterate :: "env \<Rightarrow> state \<Rightarrow> abort + state" where
  "iterate e s =
     (case outlier_rejection e 3 s of
        Inl a \<Rightarrow> Inl a
      | Inr s1 \<Rightarrow> outer_loop e 1 (s1\<lparr>prev_mask := mask s1\<rparr>))"

subsection \<open>Set-up\<close>

text \<open>
  What \<^verbatim>\<open>run\<close> reads: the input images (for each tissue and each voxel the row along axis
  3; a 3-D image has rows of length one), the mask image, the scanner position of every
  voxel and the options.
\<close>

record args =
  input_images :: "fval list list list"
  orig_mask :: "bool list"
  voxel2scanner :: "(real \<times> real \<times> real) list"
  order :: int
  niter :: nat
  reference_value :: real
  output_balanced :: bool

text \<open>Lines 370 to 379. \<^verbatim>\<open>in.value()\<close> reads the first volume of the voxel.\<close>

definition ValueAccumulator :: "fval \<Rightarrow> fval \<Rightarrow> fval" where
  "ValueAccumulator sum_value in_value = fadd sum_value in_value"

definition mask_refiner :: "fval \<Rightarrow> bool \<Rightarrow> bool" where
  "mask_refiner summed initial = (isfinite summed \<and> fgt0 summed \<and> initial)"

definition summed_image :: "fval list list list \<Rightarrow> fval list" where
  "summed_image imgs =
     foldl (\<lambda>summed img. map2 ValueAccumulator summed (map hd img))
           (replicate (length (hd imgs)) (Fin 0)) imgs"

definition refined_mask :: "args \<Rightarrow> bool list" where
  "refined_mask a = map2 mask_refiner (summed_image (input_images a)) (orig_mask a)"

text \<open>Lines 390 to 398.\<close>

definition combined_image :: "fval list list list \<Rightarrow> real list list" where
  "combined_image imgs =
     map (\<lambda>v. map (\<lambda>img. to_real (fmax0 (hd (img ! v)))) imgs) [0..<length (hd imgs)]"

text \<open>Line 401.\<close>

fun count_voxels :: "bool list \<Rightarrow> nat \<Rightarrow> nat" where
  "count_voxels [] n = n"
| "count_voxels (m # ms) n = count_voxels ms (if m then n + 1 else n)"

text \<open>Lines 351 to 424.\<close>

definition initialise :: "args \<Rightarrow> abort + (env \<times> state)" where
  "initialise a =
     (let imgs = input_images a;
          nvox = length (hd imgs);
          initial = refined_mask a;
          nv = count_voxels initial 0
      in if nv = 0 then Inl (Exception MaskNoValidVoxels)
         else Inr (\<lparr>n_tissue_types = length imgs,
                     combined_tissue = combined_image imgs,
                     initial_mask = initial,
                     scanner_pos = voxel2scanner a,
                     n_basis_vecs = GetBasisVecs (order a),
                     log_ref_value = ln (reference_value a),
                     max_iter = niter a\<rparr>,
                   \<lparr>mask = initial,
                     prev_mask = replicate nvox False,
                     num_voxels = nv,
                     balance_factors = replicate (length imgs) 1,
                     norm_field_weights = [],
                     norm_field_log = replicate nvox 0,
                     norm_field_image = replicate nvox 1,
                     trace = []\<rparr>))"

subsection \<open>Output\<close>

text \<open>Lines 652 to 663: the functor \<^verbatim>\<open>LogNormScale\<close>, called once for every voxel.\<close>

definition LogNormScale :: "nat \<Rightarrow> real \<Rightarrow> bool \<times> real \<Rightarrow> real" where
  "LogNormScale nv lognorm_scale v =
     (case v of (mask_in, norm_field_lg) \<Rightarrow>
        exp ((if mask_in then lognorm_scale + norm_field_lg else lognorm_scale) / real nv))"

definition compute_lognorm_scale :: "state \<Rightarrow> real" where
  "compute_lognorm_scale s =
     (if num_voxels s \<noteq> 0
      then foldl (LogNormScale (num_voxels s)) 0 (zip (mask s) (norm_field_log s))
      else 0)"

text \<open>Lines 680 to 686: the functor \<^verbatim>\<open>ReadInOutput\<close>, for one voxel.\<close>

definition ReadInOutput :: "fval list \<Rightarrow> real \<Rightarrow> fval list \<Rightarrow> real \<Rightarrow> fval list" where
  "ReadInOutput zero_vec balance_multiplier in_im norm_field_im =
     (if flt0 (hd in_im) then zero_vec
      else map (\<lambda>a. fscale a balance_multiplier norm_field_im) in_im)"

text \<open>Lines 667 to 687, for tissue \<open>j\<close>.\<close>

definition output_image :: "args \<Rightarrow> state \<Rightarrow> nat \<Rightarrow> fval list list" where
  "output_image a s j =
     (let balance_multiplier = (if output_balanced a then balance_factors s ! j else 1);
          img = input_images a ! j;
          n_vols = length (hd img);
          zero_vec = replicate n_vols (Fin 0)
      in map2 (ReadInOutput zero_vec balance_multiplier) img (norm_field_image s))"

record result =
  out_images :: "fval list list list"
  lognorm_scale :: real
  final :: state

definition finish :: "args \<Rightarrow> state \<Rightarrow> result" where
  "finish a s =
     \<lparr>out_images = map (output_image a s) [0..<length (input_images a)],
      lognorm_scale = compute_lognorm_scale s,
      final = s\<rparr>"

text \<open>The command.\<close>

definition run :: "args \<Rightarrow> abort + result" where
  "run a =
     (case initialise a of
        Inl x \<Rightarrow> Inl x
      | Inr (e, s0) \<Rightarrow>
          (case iterate e s0 of
             Inl x \<Rightarrow> Inl x
           | Inr s \<Rightarrow> Inr (finish a s)))"

subsection \<open>Masks\<close>

text \<open>A mask \<open>m\<close> of the size of the mask \<open>im\<close> that is active only where \<open>im\<close> is.\<close>

definition mask_within :: "bool list \<Rightarrow> bool list \<Rightarrow> bool" where
  "mask_within m im = (length m = length im \<and> (\<forall>v < length im. m ! v \<longrightarrow> im ! v))"

subsection \<open>Properties of matrices\<close>

text \<open>An \<open>n\<close> by \<open>n\<close> matrix.\<close>

definition square :: "nat \<Rightarrow> real list list \<Rightarrow> bool" where
  "square n mat = (length mat = n \<and> list_all (\<lambda>row. length row = n) mat)"

text \<open>
  The state of the in-place factorisation of \<open>A\<close> before column \<open>k\<close>: the columns from \<open>k\<close>
  on are those of \<open>A\<close>, and the columns below \<open>k\<close> hold the columns of a lower triangular
  factor with a positive diagonal.
\<close>

definition factored :: "nat \<Rightarrow> nat \<Rightarrow> real list list \<Rightarrow> real list list \<Rightarrow> bool" where
  "factored n k A mat =
     (square n mat \<and>
      (\<forall>i < n. \<forall>c < n. k \<le> c \<longrightarrow> mat ! i ! c = A ! i ! c) \<and>
      (\<forall>c < k. 0 < mat ! c ! c \<and>
         (\<forall>i < n. c \<le> i \<longrightarrow> (\<Sum>t\<le>c. mat ! i ! t * mat ! c ! t) = A ! i ! c)))"

subsection \<open>The shape of a trace\<close>






section \<open>Single-precision rounding\<close>

subsection \<open>Rounding to the nearest integer, ties to even\<close>

lemma rte_of_int [simp]: "round_ties_even (of_int n) = n"
  by (simp add: round_ties_even_def)

lemma rte_0 [simp]: "round_ties_even 0 = 0"
  using rte_of_int [of 0] by simp

lemma rte_bounds: "x - 1/2 \<le> of_int (round_ties_even x)" "of_int (round_ties_even x) \<le> x + 1/2"
  unfolding round_ties_even_def Let_def by (auto; linarith)+

lemma rte_mono: "x \<le> y \<Longrightarrow> round_ties_even x \<le> round_ties_even y"
proof -
  assume xy: "x \<le> y"
  then have fl: "\<lfloor>x\<rfloor> \<le> \<lfloor>y\<rfloor>" by (rule floor_mono)
  have lo: "\<lfloor>z\<rfloor> \<le> round_ties_even z" and hi: "round_ties_even z \<le> \<lfloor>z\<rfloor> + 1" for z
    by (auto simp: round_ties_even_def Let_def)
  show ?thesis
  proof (cases "\<lfloor>x\<rfloor> < \<lfloor>y\<rfloor>")
    case True
    then have "round_ties_even x \<le> \<lfloor>y\<rfloor>" using hi [of x] by linarith
    then show ?thesis using lo [of y] by linarith
  next
    case False
    with fl have eq: "\<lfloor>x\<rfloor> = \<lfloor>y\<rfloor>" by simp
    with xy have "x - of_int \<lfloor>x\<rfloor> \<le> y - of_int \<lfloor>y\<rfloor>" by simp
    then show ?thesis
      unfolding round_ties_even_def Let_def eq by auto
  qed
qed

lemma rte_minus: "round_ties_even (- x) = - round_ties_even x"
proof (cases "x = of_int \<lfloor>x\<rfloor>")
  case True
  then obtain n where "x = of_int n" ..
  then have "- x = of_int (- n)" by simp
  then show ?thesis
    unfolding \<open>x = of_int n\<close> by (simp only: rte_of_int)
next
  case False
  then have "of_int \<lfloor>x\<rfloor> < x" using of_int_floor_le [of x] by linarith
  moreover have "x < of_int \<lfloor>x\<rfloor> + 1" by linarith
  ultimately have fl: "\<lfloor>- x\<rfloor> = - \<lfloor>x\<rfloor> - 1"
    by (intro floor_unique; simp; linarith)
  have par: "even (- \<lfloor>x\<rfloor> - 1) = odd \<lfloor>x\<rfloor>" by simp
  have d: "- x - of_int (- \<lfloor>x\<rfloor> - 1) = 1 - (x - of_int \<lfloor>x\<rfloor>)" by simp
  show ?thesis
    unfolding round_ties_even_def Let_def fl d par by (auto simp: algebra_simps)
qed

lemma rte_nonneg: "0 \<le> x \<Longrightarrow> 0 \<le> round_ties_even x"
  using rte_mono [of 0 x] by simp

subsection \<open>Rounding to the nearest float\<close>

lemma binade_bounds:
  assumes "x \<noteq> 0"
  shows "2 powi binade x \<le> \<bar>x\<bar>" "\<bar>x\<bar> < 2 powi (binade x + 1)"
proof -
  have pos: "0 < \<bar>x\<bar>" using assms by simp
  have "(2::real) powr of_int (binade x) \<le> \<bar>x\<bar> \<and> \<bar>x\<bar> < 2 powr of_int (binade x + 1)"
    using floor_log_eq_powr_iff [of "\<bar>x\<bar>" 2 "binade x"] pos by (simp add: binade_def)
  then show "2 powi binade x \<le> \<bar>x\<bar>" "\<bar>x\<bar> < 2 powi (binade x + 1)"
    by (simp_all only: powr_real_of_int' [of 2, simplified])
qed

lemma binade_unique:
  assumes "2 powi k \<le> \<bar>x\<bar>" "\<bar>x\<bar> < 2 powi (k + 1)"
  shows "binade x = k"
proof -
  have "0 < (2::real) powi k" by simp
  with assms have pos: "0 < \<bar>x\<bar>" by linarith
  have "(2::real) powr of_int k \<le> \<bar>x\<bar> \<and> \<bar>x\<bar> < 2 powr of_int (k + 1)"
    using assms by (simp only: powr_real_of_int' [of 2, simplified])
  then show ?thesis
    using floor_log_eq_powr_iff [of "\<bar>x\<bar>" 2 k] pos by (simp add: binade_def)
qed

lemma quantum_pos [simp]: "0 < quantum x"
  by (simp add: quantum_def)

lemma quantum_nonneg [simp]: "0 \<le> quantum x"
  by (simp add: quantum_def)

lemma binade_minus [simp]: "binade (- x) = binade x"
  by (simp add: binade_def)

lemma quantum_minus [simp]: "quantum (- x) = quantum x"
  by (simp add: quantum_def)

lemma round_float_0 [simp]: "round_float 0 = 0"
  by (simp add: round_float_def)

lemma round_float_minus: "round_float (- x) = - round_float x"
  by (simp add: round_float_def rte_minus)

lemma round_float_nonneg: "0 \<le> x \<Longrightarrow> 0 \<le> round_float x"
proof -
  assume "0 \<le> x"
  then have "0 \<le> x / quantum x" by (intro divide_nonneg_pos quantum_pos)
  then have "0 \<le> round_ties_even (x / quantum x)" by (rule rte_nonneg)
  then show ?thesis by (simp add: round_float_def mult_nonneg_nonneg)
qed

lemma round_float_at:
  assumes "2 powi k \<le> \<bar>x\<bar>" "\<bar>x\<bar> < 2 powi (k + 1)"
  shows "round_float x =
           of_int (round_ties_even (x / 2 powi (max k (- 126) - 23))) * 2 powi (max k (- 126) - 23)"
proof -
  have "0 < (2::real) powi k" by simp
  with assms(1) have "0 < \<bar>x\<bar>" by linarith
  then have "x \<noteq> 0" by simp
  then show ?thesis
    by (simp add: round_float_def quantum_def binade_unique [OF assms])
qed

lemma two_powi_le_iff: "(2::real) powi m \<le> 2 powi n \<longleftrightarrow> m \<le> n"
  using power_int_increasing [of m n "2::real"] power_int_strict_increasing [of n m "2::real"]
  by (cases "m \<le> n") auto

lemma two_powi_less_iff: "(2::real) powi m < 2 powi n \<longleftrightarrow> m < n"
  using power_int_increasing [of n m "2::real"] power_int_strict_increasing [of m n "2::real"]
  by (cases "m < n") auto

lemma round_float_repr:
  assumes m: "\<bar>m\<bar> < 2 ^ 24" and e: "- 149 \<le> e"
  shows "round_float (of_int m * 2 powi e) = of_int m * 2 powi e"
proof (cases "m = 0")
  case True
  then show ?thesis by simp
next
  case False
  define x :: real where "x = of_int m * 2 powi e"
  have x0: "x \<noteq> 0" using False by (simp add: x_def)
  define b where "b = binade x"
  define qe where "qe = max b (- 126) - 23"
  have ax: "\<bar>x\<bar> = of_int \<bar>m\<bar> * 2 powi e" by (simp add: x_def abs_mult)
  have "of_int \<bar>m\<bar> < (2::real) ^ 24" using m by (metis of_int_less_numeral_power_cancel_iff)
  then have "\<bar>x\<bar> < 2 ^ 24 * 2 powi e" unfolding ax by simp
  also have "\<dots> = 2 powi (24 + e)" by (simp add: power_int_add)
  finally have up: "\<bar>x\<bar> < 2 powi (24 + e)" .
  have "(2::real) powi b \<le> \<bar>x\<bar>" using binade_bounds(1) [OF x0] by (simp add: b_def)
  with up have "(2::real) powi b < 2 powi (24 + e)" by linarith
  then have "b < 24 + e" by (simp add: two_powi_less_iff)
  with e have qe: "qe \<le> e" by (simp add: qe_def)
  then obtain d :: nat where d: "e = qe + int d" by (metis zle_iff_zadd)
  have "x / 2 powi qe = of_int m * 2 ^ d"
    by (simp add: x_def d power_int_add)
  also have "\<dots> = of_int (m * 2 ^ d)" by simp
  finally have "round_ties_even (x / 2 powi qe) = m * 2 ^ d" by (simp only: rte_of_int)
  then have "round_float x = of_int (m * 2 ^ d) * 2 powi qe"
    using x0 by (simp add: round_float_def quantum_def qe_def b_def)
  also have "\<dots> = x" by (simp add: x_def d power_int_add)
  finally show ?thesis by (simp add: x_def)
qed

lemma rte_abs_le:
  assumes "\<bar>x\<bar> \<le> of_int n"
  shows "\<bar>round_ties_even x\<bar> \<le> n"
proof -
  have b: "of_int (- n) \<le> x" "x \<le> of_int n" using assms by (simp_all add: abs_le_iff)
  have "round_ties_even x \<le> round_ties_even (of_int n)"
    using b(2) by (rule rte_mono)
  moreover have "round_ties_even (of_int (- n)) \<le> round_ties_even x"
    using b(1) by (rule rte_mono)
  ultimately show ?thesis unfolding rte_of_int by linarith
qed

lemma round_float_form:
  "\<exists>m e. \<bar>m\<bar> < 2 ^ 24 \<and> - 149 \<le> e \<and> round_float x = of_int m * 2 powi e"
proof (cases "x = 0")
  case True
  then have "\<bar>0::int\<bar> < 2 ^ 24 \<and> - 149 \<le> (0::int) \<and> round_float x = of_int 0 * 2 powi 0" by simp
  then show ?thesis by blast
next
  case False
  define b where "b = binade x"
  define qe where "qe = max b (- 126) - 23"
  define n where "n = round_ties_even (x / 2 powi qe)"
  have rf: "round_float x = of_int n * 2 powi qe"
    using False by (simp add: round_float_def quantum_def qe_def b_def n_def)
  have qe: "- 149 \<le> qe" "b + 1 - qe \<le> 24" by (simp_all add: qe_def)
  have ab: "\<bar>x / 2 powi qe\<bar> = \<bar>x\<bar> / 2 powi qe" by (simp add: abs_divide)
  have "\<bar>x\<bar> < 2 powi (b + 1)" using binade_bounds(2) [OF False] by (simp add: b_def)
  then have "\<bar>x\<bar> / 2 powi qe < 2 powi (b + 1) / 2 powi qe"
    by (simp add: divide_strict_right_mono)
  also have "\<dots> = 2 powi (b + 1 - qe)" by (simp add: power_int_diff)
  also have "\<dots> \<le> 2 powi 24" using qe(2) by (simp only: two_powi_le_iff)
  also have "(2::real) powi 24 = of_int (2 ^ 24)" by simp
  finally have "\<bar>x\<bar> / 2 powi qe \<le> of_int (2 ^ 24)" by simp
  then have "\<bar>x / 2 powi qe\<bar> \<le> of_int (2 ^ 24)" by (simp only: ab)
  then have n: "\<bar>n\<bar> \<le> 2 ^ 24" unfolding n_def by (rule rte_abs_le)
  show ?thesis
  proof (cases "\<bar>n\<bar> < 2 ^ 24")
    case True
    with qe(1) rf show ?thesis by blast
  next
    case False
    with n have "\<bar>n\<bar> = 2 ^ 24" by simp
    then consider "n = 2 ^ 24" | "n = - (2 ^ 24)" by linarith
    then have "round_float x = of_int (n div 2) * 2 powi (qe + 1) \<and> \<bar>n div 2\<bar> < 2 ^ 24"
      by cases (simp_all add: rf power_int_add)
    moreover note this [THEN conjunct2]
    moreover have "- 149 \<le> qe + 1" using qe(1) by simp
    ultimately show ?thesis by blast
  qed
qed

lemma round_float_idem [simp]: "round_float (round_float x) = round_float x"
proof -
  obtain m e where "\<bar>m\<bar> < 2 ^ 24" "- 149 \<le> e" "round_float x = of_int m * 2 powi e"
    using round_float_form [of x] by blast
  then show ?thesis by (simp add: round_float_repr)
qed

lemma round_float_error:
  assumes "2 powi (- 126) \<le> \<bar>x\<bar>"
  shows "\<bar>round_float x - x\<bar> \<le> \<bar>x\<bar> / 2 ^ 24"
proof -
  have "0 < (2::real) powi (- 126)" by simp
  with assms have "0 < \<bar>x\<bar>" by linarith
  then have x0: "x \<noteq> 0" by simp
  define b where "b = binade x"
  have lo: "2 powi b \<le> \<bar>x\<bar>" and hi: "\<bar>x\<bar> < 2 powi (b + 1)"
    using binade_bounds [OF x0] by (simp_all add: b_def)
  from assms hi have "(2::real) powi (- 126) < 2 powi (b + 1)" by linarith
  then have "- 126 < b + 1" by (simp only: two_powi_less_iff)
  then have b: "- 126 \<le> b" by simp
  define q :: real where "q = 2 powi (b - 23)"
  have q: "0 < q" by (simp add: q_def)
  define n where "n = round_ties_even (x / q)"
  have rf: "round_float x = of_int n * q"
    using x0 b by (simp add: round_float_def quantum_def q_def b_def n_def max_def)
  have "\<bar>of_int n - x / q\<bar> \<le> 1 / 2"
    using rte_bounds [of "x / q"] unfolding n_def by linarith
  then have "\<bar>of_int n - x / q\<bar> * q \<le> 1 / 2 * q"
    using q by (intro mult_right_mono) simp_all
  moreover have "\<bar>of_int n - x / q\<bar> * q = \<bar>of_int n * q - x\<bar>"
  proof -
    have "\<bar>of_int n - x / q\<bar> * q = \<bar>of_int n - x / q\<bar> * \<bar>q\<bar>" using q by simp
    also have "\<dots> = \<bar>(of_int n - x / q) * q\<bar>" by (simp only: abs_mult)
    also have "(of_int n - x / q) * q = of_int n * q - x" using q by (simp add: algebra_simps)
    finally show ?thesis .
  qed
  ultimately have "\<bar>round_float x - x\<bar> \<le> q / 2" by (simp add: rf)
  also have "q / 2 = 2 powi b / 2 ^ 24" by (simp add: q_def power_int_diff)
  also have "\<dots> \<le> \<bar>x\<bar> / 2 ^ 24" using lo by (simp add: divide_right_mono)
  finally show ?thesis .
qed

lemma round_float_mono_pos:
  assumes x: "0 < x" and xy: "x \<le> y"
  shows "round_float x \<le> round_float y"
proof -
  have y: "0 < y" using x xy by linarith
  define bx where "bx = binade x"
  define bY where "bY = binade y"
  define qx where "qx = max bx (- 126) - 23"
  define qy where "qy = max bY (- 126) - 23"
  have x0: "x \<noteq> 0" and y0: "y \<noteq> 0" using x y by simp_all
  have xlo: "2 powi bx \<le> x" and xhi: "x < 2 powi (bx + 1)"
    using binade_bounds [OF x0] x by (simp_all add: bx_def)
  have ylo: "2 powi bY \<le> y" and yhi: "y < 2 powi (bY + 1)"
    using binade_bounds [OF y0] y by (simp_all add: bY_def)
  have rx: "round_float x = of_int (round_ties_even (x / 2 powi qx)) * 2 powi qx"
    using x0 by (simp add: round_float_def quantum_def qx_def bx_def)
  have ry: "round_float y = of_int (round_ties_even (y / 2 powi qy)) * 2 powi qy"
    using y0 by (simp add: round_float_def quantum_def qy_def bY_def)
  from xlo xy yhi have "(2::real) powi bx < 2 powi (bY + 1)" by linarith
  then have bxy: "bx \<le> bY" by (simp add: two_powi_less_iff)
  then have qxy: "qx \<le> qy" by (simp add: qx_def qy_def)
  show ?thesis
  proof (cases "qx = qy")
    case True
    have "x / 2 powi qy \<le> y / 2 powi qy" using xy by (simp add: divide_right_mono)
    then have "round_ties_even (x / 2 powi qy) \<le> round_ties_even (y / 2 powi qy)"
      by (rule rte_mono)
    then show ?thesis unfolding rx ry True by (simp add: mult_right_mono)
  next
    case False
    with qxy have lt: "qx < qy" by simp
    then have bY: "- 126 < bY" "qy = bY - 23" "bx < bY"
      using bxy by (auto simp: qx_def qy_def max_def split: if_splits)
    define d where "d = nat (bY - qx)"
    have d: "bY - qx = int d" using lt bY(2) by (simp add: d_def)
    have "x \<le> 2 powi bY" using xhi bY(3) two_powi_le_iff [of "bx + 1" bY] by linarith
    then have "x / 2 powi qx \<le> 2 powi bY / 2 powi qx" by (simp add: divide_right_mono)
    also have "\<dots> = 2 powi (bY - qx)" by (simp add: power_int_diff)
    also have "\<dots> = of_int (2 ^ d)" by (simp add: d)
    finally have "round_ties_even (x / 2 powi qx) \<le> round_ties_even (of_int (2 ^ d))"
      by (rule rte_mono)
    then have "of_int (round_ties_even (x / 2 powi qx)) \<le> (2::real) ^ d"
      by (simp only: rte_of_int) (metis of_int_le_iff of_int_numeral of_int_power)
    then have "round_float x \<le> 2 ^ d * 2 powi qx"
      unfolding rx by (simp add: mult_right_mono)
    also have "(2::real) ^ d * 2 powi qx = 2 powi (int d + qx)" by (simp add: power_int_add)
    also have "\<dots> = 2 powi bY" using d by (simp add: algebra_simps)
    finally have one: "round_float x \<le> 2 powi bY" .
    have "2 powi bY / 2 powi qy \<le> y / 2 powi qy" using ylo by (simp add: divide_right_mono)
    moreover have "2 powi bY / 2 powi qy = (of_int (2 ^ 23) :: real)"
      by (simp add: power_int_diff [symmetric] bY(2))
    ultimately have "round_ties_even (of_int (2 ^ 23)) \<le> round_ties_even (y / 2 powi qy)"
      by (intro rte_mono) simp
    then have "(2::real) ^ 23 \<le> of_int (round_ties_even (y / 2 powi qy))"
      by (simp only: rte_of_int) (metis of_int_le_iff of_int_numeral of_int_power)
    then have "2 ^ 23 * 2 powi qy \<le> round_float y"
      unfolding ry by (simp add: mult_right_mono)
    moreover have "(2::real) ^ 23 * 2 powi qy = 2 powi bY"
      by (simp add: bY(2) power_int_diff)
    ultimately show ?thesis using one by linarith
  qed
qed

lemma round_float_mono:
  assumes "x \<le> y"
  shows "round_float x \<le> round_float y"
proof -
  consider "0 < x" | "x \<le> 0" "0 \<le> y" | "y < 0" using assms by linarith
  then show ?thesis
  proof cases
    case 1
    then show ?thesis using assms by (rule round_float_mono_pos)
  next
    case 2
    have "0 \<le> round_float (- x)" using 2(1) by (intro round_float_nonneg) simp
    then have "round_float x \<le> 0" by (simp add: round_float_minus)
    moreover have "0 \<le> round_float y" using 2(2) by (rule round_float_nonneg)
    ultimately show ?thesis by linarith
  next
    case 3
    then have "round_float (- y) \<le> round_float (- x)"
      using assms by (intro round_float_mono_pos) simp_all
    then show ?thesis by (simp add: round_float_minus)
  qed
qed

lemma round_float_dyadic:
  assumes "\<bar>m\<bar> < 2 ^ 24" "k \<le> 149"
  shows "round_float (of_int m / 2 ^ k) = of_int m / 2 ^ k"
proof -
  have "(2::real) powi (- int k) = 1 / 2 ^ k"
    by (simp add: power_int_minus field_simps)
  then show ?thesis
    using round_float_repr [of m "- int k"] assms by simp
qed

lemma round_float_of_int:
  assumes "\<bar>m\<bar> \<le> 2 ^ 24"
  shows "round_float (of_int m) = of_int m"
proof (cases "\<bar>m\<bar> < 2 ^ 24")
  case True
  then show ?thesis using round_float_repr [of m 0] by simp
next
  case False
  with assms consider "m = 2 ^ 24" | "m = - (2 ^ 24)" by linarith
  then show ?thesis
    using round_float_repr [of "2 ^ 23" 1] round_float_repr [of "- (2 ^ 23)" 1]
    by cases simp_all
qed

lemma round_float_of_nat: "n \<le> 2 ^ 24 \<Longrightarrow> round_float (real n) = real n"
  using round_float_of_int [of "int n"] by simp

lemma round_float_numeral [simp]:
  "numeral k \<le> (16777216::int) \<Longrightarrow> round_float (numeral k) = numeral k"
  using round_float_of_int [of "numeral k"] by simp

lemma round_float_neg_numeral [simp]:
  "numeral k \<le> (16777216::int) \<Longrightarrow> round_float (- numeral k) = - numeral k"
  by (simp add: round_float_minus)

lemma round_float_1 [simp]: "round_float 1 = 1"
  using round_float_of_int [of 1] by simp

lemma round_float_upper:
  assumes "1 / 2 \<le> x"
  shows "round_float x \<le> x * (16777217 / 16777216)"
proof -
  have "(2::real) powi (- 126) \<le> 2 powi (- 1)" by (simp only: two_powi_le_iff)
  also have "\<dots> \<le> \<bar>x\<bar>" using assms by simp
  finally have "\<bar>round_float x - x\<bar> \<le> \<bar>x\<bar> / 2 ^ 24" by (rule round_float_error)
  moreover have "\<bar>x\<bar> = x" "(2::real) ^ 24 = 16777216" using assms by simp_all
  ultimately have "\<bar>round_float x - x\<bar> \<le> x / 16777216" by (simp only:)
  then show ?thesis by linarith
qed

subsection \<open>Overflow\<close>

lemma to_float_Fin: "\<bar>round_float x\<bar> < 2 ^ 128 \<Longrightarrow> to_float x = Fin (round_float x)"
  by (simp add: to_float_def Let_def) linarith

lemma to_float_0 [simp]: "to_float 0 = Fin 0"
  by (simp add: to_float_def)

lemma to_float_1 [simp]: "to_float 1 = Fin 1"
  by (simp add: to_float_def)

lemma to_float_numeral [simp]:
  "numeral k \<le> (16777216::int) \<Longrightarrow> to_float (numeral k) = Fin (numeral k)"
proof -
  assume k: "numeral k \<le> (16777216::int)"
  then have r: "round_float (numeral k) = numeral k" by simp
  from k have "(numeral k :: real) \<le> 16777216"
    by (metis of_int_le_iff of_int_numeral)
  moreover have "(16777216::real) < 2 ^ 128" "(0::real) < numeral k" by simp_all
  ultimately have "\<not> (2::real) ^ 128 \<le> numeral k" "\<not> (numeral k :: real) \<le> - (2 ^ 128)"
    by linarith+
  then show ?thesis
    unfolding to_float_def Let_def r by (simp only: if_False)
qed

lemma to_float_neg_numeral [simp]:
  "numeral k \<le> (16777216::int) \<Longrightarrow> to_float (- numeral k) = Fin (- numeral k)"
proof -
  assume k: "numeral k \<le> (16777216::int)"
  then have r: "round_float (- numeral k) = - numeral k" by simp
  from k have "(numeral k :: real) \<le> 16777216"
    by (metis of_int_le_iff of_int_numeral)
  moreover have "(16777216::real) < 2 ^ 128" "(0::real) < numeral k" by simp_all
  ultimately have "\<not> (2::real) ^ 128 \<le> - numeral k" "\<not> (- numeral k :: real) \<le> - (2 ^ 128)"
    by linarith+
  then show ?thesis
    unfolding to_float_def Let_def r by (simp only: if_False)
qed

lemma to_float_range:
  assumes "1 \<le> x" "x \<le> 16777216"
  shows "\<exists>y. to_float x = Fin y \<and> 0 < y"
proof -
  have "round_float 1 \<le> round_float x" "round_float x \<le> round_float 16777216"
    using assms by (simp_all only: round_float_mono)
  then have "1 \<le> round_float x" "round_float x \<le> 16777216" by simp_all
  then show ?thesis by (simp add: to_float_def)
qed

lemma to_float_exp_1 [simp]: "isfinite (to_float (exp 1))" "fgt0 (to_float (exp 1))"
proof -
  have "exp (1::real) \<le> 3" using exp_le by simp
  then obtain y where "to_float (exp 1) = Fin y" "0 < y"
    using to_float_range [of "exp 1"] by auto
  then show "isfinite (to_float (exp 1))" "fgt0 (to_float (exp 1))" by simp_all
qed

section \<open>The outlier rejector\<close>

subsection \<open>Quartile indices\<close>

lemma cpp_round_mono:
  assumes "x \<le> y"
  shows "cpp_round x \<le> cpp_round y"
proof -
  consider "0 \<le> x" | "x < 0" "0 \<le> y" | "y < 0" using assms by linarith
  then show ?thesis
  proof cases
    case 1
    then show ?thesis using assms by (simp add: cpp_round_def floor_mono)
  next
    case 2
    have "\<lceil>x - 1/2\<rceil> \<le> 0" using 2(1) by (simp add: ceiling_le_iff)
    moreover have "0 \<le> \<lfloor>y + 1/2\<rfloor>" using 2(2) by simp
    ultimately have "\<lceil>x - 1/2\<rceil> \<le> \<lfloor>y + 1/2\<rfloor>" by linarith
    then show ?thesis using 2 by (simp add: cpp_round_def)
  next
    case 3
    then show ?thesis using assms by (simp add: cpp_round_def ceiling_mono)
  qed
qed

lemma quartile_index_lower:
  assumes "n < 16777216"
  shows "quartile_index n (1/4) = (n + 2) div 4"
proof -
  have a: "round_float (real n) = real n"
    using assms by (intro round_float_of_nat) simp
  have e: "real n * (1/4) = of_int (int n) / 2 ^ 2" by simp
  have p: "round_float (real n * (1/4)) = real n * (1/4)"
    unfolding e using assms by (intro round_float_dyadic) simp_all
  have "\<lfloor>real n * (1/4) + 1/2\<rfloor> = \<lfloor>real (n + 2) / real 4\<rfloor>"
    by (simp add: field_simps)
  also have "\<dots> = int ((n + 2) div 4)"
    by (simp only: floor_divide_of_nat_eq)
  finally have fl: "\<lfloor>real n * (1/4) + 1/2\<rfloor> = int ((n + 2) div 4)" .
  show ?thesis
    unfolding quartile_index_def a p cpp_round_def using fl by simp
qed

lemma quartile_index_upper:
  assumes "n < 5592406"
  shows "quartile_index n (3/4) = (3 * n + 2) div 4"
proof -
  have a: "round_float (real n) = real n"
    using assms by (intro round_float_of_nat) simp
  have e: "real n * (3/4) = of_int (int (3 * n)) / 2 ^ 2" by simp
  have p: "round_float (real n * (3/4)) = real n * (3/4)"
    unfolding e using assms by (intro round_float_dyadic) simp_all
  have "\<lfloor>real n * (3/4) + 1/2\<rfloor> = \<lfloor>real (3 * n + 2) / real 4\<rfloor>"
    by (simp add: field_simps)
  also have "\<dots> = int ((3 * n + 2) div 4)"
    by (simp only: floor_divide_of_nat_eq)
  finally have fl: "\<lfloor>real n * (3/4) + 1/2\<rfloor> = int ((3 * n + 2) div 4)" .
  show ?thesis
    unfolding quartile_index_def a p cpp_round_def using fl by simp
qed

lemma quartile_index_le: "quartile_index n 0.25 \<le> quartile_index n 0.75"
proof -
  have "0 \<le> round_float (real n)" by (intro round_float_nonneg) simp
  then have "round_float (real n) * (1/4) \<le> round_float (real n) * (3/4)" by simp
  then have "cpp_round (round_float (round_float (real n) * (1/4)))
      \<le> cpp_round (round_float (round_float (real n) * (3/4)))"
    by (intro cpp_round_mono round_float_mono)
  then show ?thesis by (simp add: quartile_index_def)
qed

lemma quartile_index_inside:
  assumes n: "3 \<le> n" and q: "q = 1/4 \<or> q = 3/4"
  shows "quartile_index n q < n"
proof -
  define a where "a = round_float (real n)"
  define p where "p = round_float (a * q)"
  have "round_float 1 \<le> a" unfolding a_def using n by (intro round_float_mono) simp
  then have a1: "1 \<le> a" by simp
  have a2: "a \<le> real n * (16777217 / 16777216)"
    unfolding a_def using n by (intro round_float_upper) simp
  have p0: "0 \<le> p" unfolding p_def using a1 q by (intro round_float_nonneg) auto
  have "p \<le> a * (3/4) * (16777217 / 16777216)"
  proof -
    have "p \<le> round_float (a * (3/4))"
      unfolding p_def using a1 q by (intro round_float_mono) auto
    also have "\<dots> \<le> a * (3/4) * (16777217 / 16777216)"
      using a1 by (intro round_float_upper) simp
    finally show ?thesis .
  qed
  with a2 n have "p + 1 / 2 < real n" by simp
  then have "\<lfloor>p + 1 / 2\<rfloor> < int n" by (simp add: floor_less_iff)
  moreover have "0 \<le> \<lfloor>p + 1 / 2\<rfloor>" using p0 by simp
  ultimately have "nat \<lfloor>p + 1 / 2\<rfloor> < n" by (simp add: nat_less_iff)
  then show ?thesis
    using p0 by (simp add: quartile_index_def cpp_round_def p_def a_def)
qed

lemma quartile_upper_valid: "(quartile_index n 0.75 < n) = (3 \<le> n)"
proof (cases "3 \<le> n")
  case True
  then show ?thesis using quartile_index_inside [of n "3/4"] by simp
next
  case False
  then consider "n = 0" | "n = 1" | "n = 2" by linarith
  then show ?thesis by cases (simp_all add: quartile_index_upper)
qed

lemma quartile_lower_valid: "(quartile_index n 0.25 < n) = (1 \<le> n)"
proof (cases "3 \<le> n")
  case True
  then show ?thesis using quartile_index_inside [of n "1/4"] by simp
next
  case False
  then consider "n = 0" | "n = 1" | "n = 2" by linarith
  then show ?thesis by cases (simp_all add: quartile_index_lower)
qed

subsection \<open>Selection\<close>

lemma nth_element_contract:
  assumes "first \<le> n" and "n < length xs"
  shows "mset (nth_element first n xs) = mset xs"
    and "take first (nth_element first n xs) = take first xs"
    and "nth_element first n xs ! n = sort (drop first xs) ! (n - first)"
    and "\<forall>i. first \<le> i \<and> i \<le> n \<longrightarrow> nth_element first n xs ! i \<le> nth_element first n xs ! n"
    and "\<forall>i. n \<le> i \<and> i < length xs \<longrightarrow> nth_element first n xs ! n \<le> nth_element first n xs ! i"
proof -
  have "mset (take first xs) + mset (drop first xs) = mset xs"
    by (metis append_take_drop_id mset_append)
  then show "mset (nth_element first n xs) = mset xs"
    by (simp add: nth_element_def)
  show "take first (nth_element first n xs) = take first xs"
    using assms by (simp add: nth_element_def)
  have at: "nth_element first n xs ! i = sort (drop first xs) ! (i - first)"
    if "first \<le> i" for i
    using that assms by (simp add: nth_element_def nth_append)
  show "nth_element first n xs ! n = sort (drop first xs) ! (n - first)"
    using assms by (simp add: at)
  show "\<forall>i. first \<le> i \<and> i \<le> n \<longrightarrow> nth_element first n xs ! i \<le> nth_element first n xs ! n"
    using assms by (auto simp: at intro!: sorted_nth_mono)
  show "\<forall>i. n \<le> i \<and> i < length xs \<longrightarrow> nth_element first n xs ! n \<le> nth_element first n xs ! i"
    using assms by (auto simp: at intro!: sorted_nth_mono)
qed

lemma take_sort_drop: "sorted xs \<Longrightarrow> take k xs @ sort (drop k xs) = xs"
  by (simp add: sorted_sort_id sorted_wrt_drop)

lemma nth_element_twice: "nth_element lo hi (nth_element 0 lo xs) = sort xs"
  by (simp add: nth_element_def take_sort_drop)

lemma quartiles_eq:
  "quartiles vals =
     (if quartile_index (length vals) 0.75 < length vals
      then Inr (sort vals ! quartile_index (length vals) 0.25,
                sort vals ! quartile_index (length vals) 0.75)
      else Inl Undefined)"
proof -
  have "quartile_index (length vals) (3/4) < length vals \<Longrightarrow>
      quartile_index (length vals) (1/4) < length vals"
    using quartile_index_le [of "length vals"] by simp
  then show ?thesis
    unfolding quartiles_def Let_def nth_element_twice
    by (auto simp add: deref_def nth_element_def)
qed

subsection \<open>The thresholding loop\<close>

lemma threshold_loop_eq:
  "length ss = length ms \<Longrightarrow>
   threshold_loop lo up ms ss nv =
     (map2 (\<lambda>m s. m \<and> lo \<le> s \<and> s \<le> up) ms ss,
      nv - length (filter (\<lambda>(m, s). m \<and> (s < lo \<or> s > up)) (zip ms ss)))"
proof (induction lo up ms ss nv rule: threshold_loop.induct)
  case (1 lo up m ms s ss nv)
  then show ?case by (auto simp: not_less)
qed auto

lemma count_voxels_acc: "count_voxels ms n = n + length (filter (\<lambda>m. m) ms)"
  by (induction ms arbitrary: n) auto

lemma collect_eq: "collect ms ss = map snd (filter fst (zip ms ss))"
  by (induction ms ss rule: collect.induct) auto

lemma masked_eq: "masked ms xs = map snd (filter fst (zip ms xs))"
  by (induction ms xs rule: masked.induct) auto

lemma length_collect:
  "length ss = length ms \<Longrightarrow> length (collect ms ss) = count_voxels ms 0"
  by (induction ms ss rule: collect.induct) (auto simp: count_voxels_acc)

lemma filter_split_length:
  "length (filter (\<lambda>(m, s). m) zs) =
   length (filter (\<lambda>(m, s). m \<and> lo \<le> s \<and> s \<le> up) zs) +
   length (filter (\<lambda>(m, s). m \<and> (s < lo \<or> s > up)) zs)"
  for lo up :: real
  by (induction zs) auto

lemma count_voxels_map2:
  "count_voxels (map2 P ms ss) 0 = length (filter (\<lambda>(m, s). P m s) (zip ms ss))"
  by (simp add: count_voxels_acc filter_map o_def split_def)

lemma count_voxels_zip:
  "length ss = length ms \<Longrightarrow> count_voxels ms 0 = length (filter (\<lambda>(m, s). m) (zip ms ss))"
  for ss :: "real list"
  by (induction ms ss rule: collect.induct) (auto simp: count_voxels_acc)

lemma threshold_loop_count:
  assumes len: "length ss = length ms"
    and res: "threshold_loop lo up ms ss (count_voxels ms 0) = (m, nv)"
  shows "nv = count_voxels m 0"
proof -
  have "count_voxels ms 0 =
      length (filter (\<lambda>(m, s). m \<and> lo \<le> s \<and> s \<le> up) (zip ms ss)) +
      length (filter (\<lambda>(m, s). m \<and> (s < lo \<or> s > up)) (zip ms ss))"
    unfolding count_voxels_zip [OF len] by (rule filter_split_length)
  then show ?thesis
    using res unfolding threshold_loop_eq [OF len]
    by (auto simp: count_voxels_map2)
qed

lemma threshold_loop_subset:
  assumes len: "length ss = length ms"
    and res: "threshold_loop lo up ms ss n = (m, nv)"
  shows "length m = length ms \<and> (\<forall>v < length ms. m ! v \<longrightarrow> ms ! v)"
  using res len unfolding threshold_loop_eq [OF len] by auto

subsection \<open>One pass\<close>

lemma outlier_pass_eq:
  assumes len: "length slog = length imask"
  shows "outlier_pass r imask slog =
     (let vals = collect imask slog;
          N = length vals;
          Q1 = sort vals ! quartile_index N 0.25;
          Q3 = sort vals ! quartile_index N 0.75;
          lo = round_float (Q1 - round_float (r * round_float (Q3 - Q1)));
          up = round_float (Q3 + round_float (r * round_float (Q3 - Q1)))
      in if quartile_index N 0.75 < N
         then Inr (map2 (\<lambda>m s. m \<and> lo \<le> s \<and> s \<le> up) imask slog,
                   N - length (filter (\<lambda>(m, s). m \<and> (s < lo \<or> s > up)) (zip imask slog)))
         else Inl Undefined)"
  unfolding outlier_pass_def Let_def quartiles_eq
  by (simp add: threshold_loop_eq [OF len] lower_outlier_threshold_def upper_outlier_threshold_def)

lemma outlier_pass_count:
  assumes len: "length slog = length imask"
    and res: "outlier_pass r imask slog = Inr (m, nv)"
  shows "nv = count_voxels m 0"
  using res unfolding outlier_pass_def Let_def length_collect [OF len]
  by (auto split: sum.splits dest: threshold_loop_count [OF len])

lemma outlier_pass_subset:
  assumes len: "length slog = length imask"
    and res: "outlier_pass r imask slog = Inr (m, nv)"
  shows "length m = length imask \<and> (\<forall>v < length imask. m ! v \<longrightarrow> imask ! v)"
  using res unfolding outlier_pass_def Let_def
  by (auto split: sum.splits dest: threshold_loop_subset [OF len])

lemma outlier_pass_keeps_quartile:
  assumes len: "length slog = length imask"
    and res: "outlier_pass r imask slog = Inr (m, nv)"
    and r: "0 \<le> r"
    and fl: "\<forall>x \<in> set slog. round_float x = x"
  shows "0 < nv"
proof -
  define vals where "vals = collect imask slog"
  define N where "N = length vals"
  define Q1 where "Q1 = sort vals ! quartile_index N (1/4)"
  define Q3 where "Q3 = sort vals ! quartile_index N (3/4)"
  define p where "p = round_float (r * round_float (Q3 - Q1))"
  define lo where "lo = round_float (Q1 - p)"
  define up where "up = round_float (Q3 + p)"
  from res have valid: "quartile_index N (3/4) < N"
    and m: "m = map2 (\<lambda>m s. m \<and> lo \<le> s \<and> s \<le> up) imask slog"
    unfolding outlier_pass_eq [OF len] Let_def vals_def N_def Q1_def Q3_def lo_def up_def p_def
    by (auto split: if_splits)
  have le: "quartile_index N (1/4) \<le> quartile_index N (3/4)"
    using quartile_index_le [of N] by simp
  have "Q1 \<le> Q3"
    unfolding Q1_def Q3_def using le valid
    by (intro sorted_nth_mono) (simp_all add: N_def)
  then have "0 \<le> round_float (Q3 - Q1)"
    by (intro round_float_nonneg) simp
  with r have "0 \<le> r * round_float (Q3 - Q1)" by simp
  then have p: "0 \<le> p"
    unfolding p_def by (rule round_float_nonneg)
  have "Q1 \<in> set (sort vals)"
    unfolding Q1_def using le valid by (intro nth_mem) (simp add: N_def)
  then have "Q1 \<in> set vals" by simp
  then have mem: "(True, Q1) \<in> set (zip imask slog)"
    unfolding vals_def collect_eq by auto
  then have "Q1 \<in> set slog" by (rule set_zip_rightD)
  with fl have rQ1: "round_float Q1 = Q1" by simp
  have "lo \<le> round_float Q1" "round_float Q1 \<le> up"
    unfolding lo_def up_def using p \<open>Q1 \<le> Q3\<close> by (intro round_float_mono; linarith)+
  then have bounds: "lo \<le> Q1" "Q1 \<le> up"
    by (simp_all only: rQ1)
  with mem have "filter (\<lambda>(m, s). m \<and> lo \<le> s \<and> s \<le> up) (zip imask slog) \<noteq> []"
    by (auto simp: filter_empty_conv)
  then have "0 < count_voxels m 0"
    unfolding m count_voxels_map2 by simp
  then show ?thesis
    using outlier_pass_count [OF len res] by simp
qed

subsection \<open>Where the pass leaves the arithmetic of real numbers\<close>









text \<open>
  Claim C9. A call of \<^verbatim>\<open>outlier_rejection\<close> on images of one size, with an initial mask
  large enough for the quartile indices to be valid: the call returns, the mask it leaves
  has the size of the initial mask and is active only where the initial mask is,
  \<open>num_voxels\<close> is the number of active voxels of that mask, and for a multiplier that is
  not negative at least one voxel is active.
\<close>

theorem outlier_rejection_invariant:
  assumes grid: "length (combined_tissue e) = length (initial_mask e)"
      "length (norm_field_image s) = length (initial_mask e)"
    and valid: "quartile_index (count_voxels (initial_mask e) 0) 0.75 < count_voxels (initial_mask e) 0"
  shows "\<exists>s'. outlier_rejection e r s = Inr s' \<and>
      length (mask s') = length (initial_mask e) \<and>
      (\<forall>v < length (initial_mask e). mask s' ! v \<longrightarrow> initial_mask e ! v) \<and>
      num_voxels s' = count_voxels (mask s') 0 \<and>
      (0 \<le> r \<longrightarrow> 0 < num_voxels s')"
proof -
  define slog where "slog = map2 (summed_log_value (balance_factors s))
                            (combined_tissue e) (norm_field_image s)"
  have len: "length slog = length (initial_mask e)"
    unfolding slog_def using grid by simp
  have N: "length (collect (initial_mask e) slog) = count_voxels (initial_mask e) 0"
    by (rule length_collect [OF len])
  obtain m nv where res: "outlier_pass r (initial_mask e) slog = Inr (m, nv)"
    using valid unfolding outlier_pass_eq [OF len] Let_def N by simp
  have "outlier_rejection e r s =
      Inr (s\<lparr>mask := m, num_voxels := nv, trace := trace s @ [Outlier_rejection r]\<rparr>)"
    unfolding outlier_rejection_def Let_def slog_def [symmetric] res by simp
  moreover have "\<forall>x \<in> set slog. round_float x = x"
    unfolding slog_def by (auto simp: summed_log_value_def dest!: set_zip_leftD)
  moreover note outlier_pass_subset [OF len res] outlier_pass_count [OF len res]
    outlier_pass_keeps_quartile [OF len res]
  ultimately show ?thesis by simp
qed

theorem outlier_rejection_invariant_witness:
  "(let e = \<lparr>n_tissue_types = 1, combined_tissue = [[1], [2], [3], [0]],
             initial_mask = [True, True, True, False],
             scanner_pos = [(0, 0, 0), (1, 0, 0), (0, 1, 0), (0, 0, 1)],
             n_basis_vecs = 1, log_ref_value = 0, max_iter = 1\<rparr>;
        s = \<lparr>mask = [True, True, True, False], prev_mask = [False, False, False, False],
             num_voxels = 3, balance_factors = [1], norm_field_weights = [],
             norm_field_log = [0, 0, 0, 0], norm_field_image = [1, 1, 1, 1], trace = []\<rparr>
    in length (combined_tissue e) = length (initial_mask e) \<and>
       length (norm_field_image s) = length (initial_mask e) \<and>
       quartile_index (count_voxels (initial_mask e) 0) 0.75 < count_voxels (initial_mask e) 0 \<and>
       (\<exists>s'. outlier_rejection e 1.5 s = Inr s' \<and>
          length (mask s') = 4 \<and> \<not> mask s' ! 3 \<and>
          num_voxels s' = count_voxels (mask s') 0 \<and> 0 < num_voxels s'))"
proof -
  define e where "e = \<lparr>n_tissue_types = 1, combined_tissue = [[1], [2], [3], [0 :: real]],
             initial_mask = [True, True, True, False],
             scanner_pos = [(0, 0, 0), (1, 0, 0), (0, 1, 0), (0, 0, 1 :: real)],
             n_basis_vecs = 1, log_ref_value = 0, max_iter = 1\<rparr>"
  define s where "s = \<lparr>mask = [True, True, True, False], prev_mask = [False, False, False, False],
             num_voxels = 3, balance_factors = [1 :: real], norm_field_weights = [],
             norm_field_log = [0, 0, 0, 0], norm_field_image = [1, 1, 1, 1], trace = []\<rparr>"
  have h1: "length (combined_tissue e) = length (initial_mask e)"
    by (simp add: e_def)
  have h2: "length (norm_field_image s) = length (initial_mask e)"
    by (simp add: e_def s_def)
  have h3: "quartile_index (count_voxels (initial_mask e) 0) 0.75 < count_voxels (initial_mask e) 0"
    by (simp add: e_def quartile_index_upper)
  have im: "initial_mask e = [True, True, True, False]"
    by (simp add: e_def)
  obtain s' where s': "outlier_rejection e 1.5 s = Inr s'"
      "length (mask s') = length (initial_mask e)"
      "\<forall>v < length (initial_mask e). mask s' ! v \<longrightarrow> initial_mask e ! v"
      "num_voxels s' = count_voxels (mask s') 0" "0 \<le> (1.5 :: real) \<longrightarrow> 0 < num_voxels s'"
    using outlier_rejection_invariant [OF h1 h2 h3, where r = "1.5"] by blast
  have "3 < length (initial_mask e)"
    by (simp add: im)
  with s'(3) have "mask s' ! 3 \<longrightarrow> initial_mask e ! 3"
    by blast
  then have "\<not> mask s' ! 3"
    by (simp add: im)
  with s' h1 h2 h3 show ?thesis
    unfolding e_def [symmetric] s_def [symmetric] Let_def im by auto
qed

text \<open>
  Claim C10. The upper quartile index, which is round (0.75 N) for these \<open>N\<close>, is 1 for one
  collected value and 2 for two, one past the end of the list, and it lies inside the
  list exactly from three values on. The quartile selection is defined exactly if the index lies inside
  the list; it is then the pair of order statistics. A pass over a mask with one or two
  active voxels reads past the end, and the command reaches that read for an image with
  a single voxel.
\<close>

theorem quartile_index_past_the_end:
  "quartile_index 1 0.75 = 1 \<and> quartile_index 2 0.75 = 2 \<and>
   (quartile_index N 0.75 < N) = (3 \<le> N) \<and>
   quartiles vals =
     (if quartile_index (length vals) 0.75 < length vals
      then Inr (sort vals ! quartile_index (length vals) 0.25,
                sort vals ! quartile_index (length vals) 0.75)
      else Inl Undefined) \<and>
   outlier_pass r [True] [x] = Inl Undefined \<and>
   outlier_pass r [True, True] [x, y] = Inl Undefined \<and>
   run \<lparr>input_images = [[[Fin 1]]], orig_mask = [True], voxel2scanner = [(0, 0, 0)],
        order = 3, niter = 15, reference_value = 1, output_balanced = False\<rparr> = Inl Undefined"
proof -
  have "run \<lparr>input_images = [[[Fin 1]]], orig_mask = [True], voxel2scanner = [(0, 0, 0)],
        order = 3, niter = 15, reference_value = 1, output_balanced = False\<rparr> = Inl Undefined"
    by (simp add: run_def initialise_def refined_mask_def summed_image_def ValueAccumulator_def
        mask_refiner_def combined_image_def fmax0_def iterate_def outlier_rejection_def
        summed_log_value_def outlier_pass_def quartiles_eq Let_def
        quartile_index_lower quartile_index_upper)
  moreover have "outlier_pass r [True] [x] = Inl Undefined"
    "outlier_pass r [True, True] [x, y] = Inl Undefined"
    by (simp_all add: outlier_pass_def quartiles_eq quartile_index_upper)
  moreover have "quartile_index 1 0.75 = 1" "quartile_index 2 0.75 = 2"
    by (simp_all add: quartile_index_upper)
  ultimately show ?thesis
    using quartile_upper_valid [of N] quartiles_eq [of vals] by simp
qed

section \<open>The initial mask\<close>

lemma finite_positive: "(isfinite s \<and> fgt0 s) = (\<exists>x. s = Fin x \<and> 0 < x)"
  by (cases s) auto

lemma fadd_Fin: "fadd a b = Fin x \<Longrightarrow> \<exists>u v. a = Fin u \<and> b = Fin v"
  by (cases a; cases b) auto

lemma foldl_fadd_Fin:
  "foldl fadd acc xs = Fin r \<Longrightarrow> isfinite acc \<and> (\<forall>x \<in> set xs. isfinite x)"
proof (induction xs arbitrary: acc)
  case Nil
  then show ?case by simp
next
  case (Cons x xs)
  from Cons.IH [of "fadd acc x"] Cons.prems
  have "isfinite (fadd acc x)" and "\<forall>x \<in> set xs. isfinite x"
    by simp_all
  moreover from \<open>isfinite (fadd acc x)\<close> obtain u v where "acc = Fin u" "x = Fin v"
    by (cases "fadd acc x") (auto dest: fadd_Fin)
  ultimately show ?case by simp
qed

lemma summed_fold_nth:
  assumes "\<forall>img \<in> set imgs. length img = n" and "length acc = n" and "v < n"
  shows "foldl (\<lambda>summed img. map2 ValueAccumulator summed (map hd img)) acc imgs ! v =
         foldl fadd (acc ! v) (map (\<lambda>img. hd (img ! v)) imgs)"
  using assms
proof (induction imgs arbitrary: acc)
  case Nil
  then show ?case by simp
next
  case (Cons img imgs)
  have "length (map2 ValueAccumulator acc (map hd img)) = n"
    using Cons.prems by simp
  moreover have "map2 ValueAccumulator acc (map hd img) ! v = fadd (acc ! v) (hd (img ! v))"
    using Cons.prems by (simp add: ValueAccumulator_def)
  ultimately show ?case
    using Cons.IH [of "map2 ValueAccumulator acc (map hd img)"] Cons.prems by simp
qed

lemma length_summed_fold:
  assumes "\<forall>img \<in> set imgs. length img = n" and "length acc = n"
  shows "length (foldl (\<lambda>summed img. map2 ValueAccumulator summed (map hd img)) acc imgs) = n"
  using assms by (induction imgs arbitrary: acc) auto

lemma summed_image_nth:
  assumes "imgs \<noteq> []" and "\<forall>img \<in> set imgs. length img = n" and "v < n"
  shows "summed_image imgs ! v = foldl fadd (Fin 0) (map (\<lambda>img. hd (img ! v)) imgs)"
proof -
  have "length (hd imgs) = n"
    using assms by (cases imgs) auto
  then show ?thesis
    unfolding summed_image_def
    using summed_fold_nth [OF assms(2) _ assms(3), of "replicate n (Fin 0)"] assms(3) by simp
qed

lemma length_summed_image:
  assumes "imgs \<noteq> []" and "\<forall>img \<in> set imgs. length img = n"
  shows "length (summed_image imgs) = n"
proof -
  have "length (hd imgs) = n"
    using assms by (cases imgs) auto
  then show ?thesis
    unfolding summed_image_def using length_summed_fold [OF assms(2)] by simp
qed

text \<open>At a voxel of the initial mask the first volume of every tissue is finite.\<close>

lemma initial_mask_finite:
  assumes imgs: "input_images a \<noteq> []"
    and size: "\<forall>img \<in> set (input_images a). length img = length (orig_mask a)"
    and v: "v < length (orig_mask a)" "refined_mask a ! v"
  shows "\<forall>img \<in> set (input_images a). isfinite (hd (img ! v))"
proof -
  have "length (summed_image (input_images a)) = length (orig_mask a)"
    by (rule length_summed_image [OF imgs size])
  with v have "isfinite (summed_image (input_images a) ! v)"
    by (simp add: refined_mask_def mask_refiner_def)
  then obtain r where "foldl fadd (Fin 0) (map (\<lambda>img. hd (img ! v)) (input_images a)) = Fin r"
    unfolding summed_image_nth [OF imgs size v(1)]
    by (cases "foldl fadd (Fin 0) (map (\<lambda>img. hd (img ! v)) (input_images a))") auto
  from foldl_fadd_Fin [OF this] show ?thesis by simp
qed

subsection \<open>Sums in single precision\<close>

text \<open>
  The sum of two finite values can be an infinity, and a sum whose exact value is
  positive can be zero: \<open>2 ^ 127 + 2 ^ 127\<close> overflows, and \<open>2 ^ 24 + 1\<close> is rounded to
  \<open>2 ^ 24\<close>, so that \<open>2 ^ 24 + 1 - 2 ^ 24\<close> is 0. Neither voxel is in the initial mask.
\<close>

lemma to_float_large:
  "to_float 170141183460469231731687303715884105728 = Fin 170141183460469231731687303715884105728"
  "to_float 340282366920938463463374607431768211456 = PInf"
  "to_float 16777217 = Fin 16777216"
proof -
  have "round_float 170141183460469231731687303715884105728 = 170141183460469231731687303715884105728"
    using round_float_repr [of "2 ^ 23" 104] by simp
  then show "to_float 170141183460469231731687303715884105728 =
      Fin 170141183460469231731687303715884105728"
    by (simp add: to_float_def)
  have "round_float 340282366920938463463374607431768211456 = 340282366920938463463374607431768211456"
    using round_float_repr [of "2 ^ 23" 105] by simp
  then show "to_float 340282366920938463463374607431768211456 = PInf"
    by (simp add: to_float_def)
  have "round_float 16777217 =
      of_int (round_ties_even (16777217 / 2 powi (max 24 (- 126) - 23))) *
      2 powi (max 24 (- 126) - 23)"
    by (intro round_float_at) simp_all
  also have "\<dots> = 16777216"
    by (simp add: round_ties_even_def)
  finally show "to_float 16777217 = Fin 16777216"
    by (simp add: to_float_def)
qed

lemma refined_mask_single_precision:
  "refined_mask \<lparr>input_images = [[[Fin (2 ^ 127)], [Fin 16777216]],
                                  [[Fin (2 ^ 127)], [Fin 1]],
                                  [[Fin 0], [Fin (- 16777216)]]],
                  orig_mask = [True, True],
                  voxel2scanner = [(0, 0, 0), (1, 0, 0)], order = 3, niter = 15,
                  reference_value = 1, output_balanced = False\<rparr> = [False, False]"
  by (simp add: refined_mask_def summed_image_def ValueAccumulator_def mask_refiner_def
      to_float_large)

subsection \<open>The mask of a run\<close>

text \<open>
  Every mask that the command works with lies within the initial mask: a rejection pass
  starts from a copy of the initial mask and only clears voxels.
\<close>

lemma threshold_loop_within:
  "threshold_loop lo up ms ss nv = (m, nv') \<Longrightarrow> mask_within m ms"
proof (induction lo up ms ss nv arbitrary: m nv' rule: threshold_loop.induct)
  case (1 lo up b ms s ss nv)
  show ?case
  proof (cases "b \<and> (s < lo \<or> s > up)")
    case True
    obtain m1 n1 where rec: "threshold_loop lo up ms ss (nv - 1) = (m1, n1)"
      by (cases "threshold_loop lo up ms ss (nv - 1)")
    with "1.prems" True have m: "m = False # m1" by auto
    from "1.IH"(1) [OF True rec] show ?thesis
      unfolding m mask_within_def by (auto simp: nth_Cons split: nat.splits)
  next
    case False
    obtain m1 n1 where rec: "threshold_loop lo up ms ss nv = (m1, n1)"
      by (cases "threshold_loop lo up ms ss nv")
    with "1.prems" False have m: "m = b # m1" by auto
    from "1.IH"(2) [OF False rec] show ?thesis
      unfolding m mask_within_def by (auto simp: nth_Cons split: nat.splits)
  qed
qed (auto simp: mask_within_def)

lemma outlier_rejection_within:
  assumes "outlier_rejection e r s = Inr s'"
  shows "mask_within (mask s') (initial_mask e)"
  using assms unfolding outlier_rejection_def outlier_pass_def Let_def
  by (auto split: sum.splits prod.splits dest: threshold_loop_within)

lemma balance_pass_within:
  assumes "balance_pass e b s = Inr (c, s')"
  shows "mask_within (mask s') (initial_mask e)"
  using assms unfolding balance_pass_def Let_def
  by (auto split: sum.splits if_splits dest: outlier_rejection_within)

lemma balance_loop_within:
  "balance_loop e b conv s = Inr s' \<Longrightarrow> mask_within (mask s) (initial_mask e) \<Longrightarrow>
   mask_within (mask s') (initial_mask e)"
proof (induction e b conv s rule: balance_loop.induct)
  case (1 e b conv s)
  show ?case
  proof (cases "\<not> conv \<and> b \<le> max_balance_iter")
    case False
    with "1.prems" show ?thesis
      by (simp add: balance_loop.simps)
  next
    case True
    with "1.prems" obtain c s1 where pass: "balance_pass e b s = Inr (c, s1)"
      and rest: "balance_loop e (b + 1) c s1 = Inr s'"
      by (subst (asm) balance_loop.simps) (auto split: sum.splits)
    from "1.IH" [OF True pass refl rest balance_pass_within [OF pass]] show ?thesis .
  qed
qed

lemma outer_loop_within:
  "outer_loop e i s = Inr s' \<Longrightarrow> mask_within (mask s) (initial_mask e) \<Longrightarrow>
   mask_within (mask s') (initial_mask e)"
proof (induction e i s rule: outer_loop.induct)
  case (1 e i s)
  show ?case
  proof (cases "i \<le> max_iter e")
    case False
    with "1.prems" show ?thesis
      by (simp add: outer_loop.simps)
  next
    case True
    with "1.prems" obtain s1
      where inner: "balance_loop e 1 False (s\<lparr>trace := trace s @ [Iteration i]\<rparr>) = Inr s1"
        and rest: "outer_loop e (i + 1) (fit_field e s1) = Inr s'"
      by (subst (asm) outer_loop.simps) (auto split: sum.splits)
    from balance_loop_within [OF inner] "1.prems"(2)
    have "mask_within (mask (fit_field e s1)) (initial_mask e)"
      by (simp add: fit_field_def Let_def)
    from "1.IH" [OF True inner rest this] show ?thesis .
  qed
qed

lemma iterate_within:
  assumes "iterate e s = Inr s'"
  shows "mask_within (mask s') (initial_mask e)"
proof -
  from assms obtain s1 where coarse: "outlier_rejection e 3 s = Inr s1"
    and loop: "outer_loop e 1 (s1\<lparr>prev_mask := mask s1\<rparr>) = Inr s'"
    by (auto simp: iterate_def split: sum.splits)
  from outer_loop_within [OF loop] outlier_rejection_within [OF coarse]
  show ?thesis by simp
qed

text \<open>
  Claim C8. For input images of the size of the mask image: the initial mask has that
  size and is true at a voxel exactly if the single-precision sum of the tissues' values
  there is a finite number greater than zero and the mask image is true there. When the
  initial mask has no active voxel, the set-up ends with the exception whose text is
  \<open>Mask contains no valid voxels.\<close>, and so does the command: there is no iteration and
  no result. Otherwise the set-up returns; the mask it hands to the iterations, as
  \<open>initial_mask\<close> and as the first working mask, is this initial mask, and \<open>num_voxels\<close>
  is the number of its active voxels. And whenever the command returns a result, the
  initial mask was not empty and the final mask is active only at voxels of the initial
  mask.
\<close>

theorem initial_mask_spec:
  assumes imgs: "input_images a \<noteq> []"
    and size: "\<forall>img \<in> set (input_images a). length img = length (orig_mask a)"
  shows "length (refined_mask a) = length (orig_mask a) \<and>
     (\<forall>v < length (orig_mask a).
        refined_mask a ! v =
          ((\<exists>x. foldl fadd (Fin 0) (map (\<lambda>img. hd (img ! v)) (input_images a)) = Fin x \<and> 0 < x) \<and>
           orig_mask a ! v)) \<and>
     (count_voxels (refined_mask a) 0 = 0 \<longrightarrow>
        initialise a = Inl (Exception MaskNoValidVoxels) \<and>
        run a = Inl (Exception MaskNoValidVoxels) \<and>
        what strn strr MaskNoValidVoxels = ''Mask contains no valid voxels.'') \<and>
     (0 < count_voxels (refined_mask a) 0 \<longrightarrow>
        (\<exists>e s. initialise a = Inr (e, s) \<and>
           initial_mask e = refined_mask a \<and> mask s = refined_mask a \<and>
           num_voxels s = count_voxels (refined_mask a) 0 \<and> trace s = [] \<and>
           run a = (case iterate e s of Inl x \<Rightarrow> Inl x | Inr s' \<Rightarrow> Inr (finish a s')))) \<and>
     (\<forall>res. run a = Inr res \<longrightarrow>
        0 < count_voxels (refined_mask a) 0 \<and>
        length (mask (final res)) = length (orig_mask a) \<and>
        (\<forall>v < length (orig_mask a). mask (final res) ! v \<longrightarrow> refined_mask a ! v))"
proof -
  have len: "length (summed_image (input_images a)) = length (orig_mask a)"
    by (rule length_summed_image [OF imgs size])
  have at: "refined_mask a ! v =
          ((\<exists>x. foldl fadd (Fin 0) (map (\<lambda>img. hd (img ! v)) (input_images a)) = Fin x \<and> 0 < x) \<and>
           orig_mask a ! v)" if "v < length (orig_mask a)" for v
    using that len
    by (simp add: refined_mask_def mask_refiner_def summed_image_nth [OF imgs size that]
        finite_positive [symmetric])
  have lm: "length (refined_mask a) = length (orig_mask a)"
    using len by (simp add: refined_mask_def)
  have none: "initialise a = Inl (Exception MaskNoValidVoxels) \<and>
      run a = Inl (Exception MaskNoValidVoxels)"
    if "count_voxels (refined_mask a) 0 = 0"
    using that by (simp add: run_def initialise_def Let_def)
  have some: "\<exists>e s. initialise a = Inr (e, s) \<and>
           initial_mask e = refined_mask a \<and> mask s = refined_mask a \<and>
           num_voxels s = count_voxels (refined_mask a) 0 \<and> trace s = [] \<and>
           run a = (case iterate e s of Inl x \<Rightarrow> Inl x | Inr s' \<Rightarrow> Inr (finish a s'))"
    if "0 < count_voxels (refined_mask a) 0"
    using that by (simp add: run_def initialise_def Let_def)
  have fin: "0 < count_voxels (refined_mask a) 0 \<and>
        length (mask (final res)) = length (orig_mask a) \<and>
        (\<forall>v < length (orig_mask a). mask (final res) ! v \<longrightarrow> refined_mask a ! v)"
    if "run a = Inr res" for res
  proof -
    from that obtain e s0 s where init: "initialise a = Inr (e, s0)"
      and it: "iterate e s0 = Inr s" and res: "res = finish a s"
      by (auto simp: run_def split: sum.splits)
    from init have e: "initial_mask e = refined_mask a" and pos: "0 < count_voxels (refined_mask a) 0"
      by (auto simp: initialise_def Let_def split: if_splits)
    from iterate_within [OF it] have "mask_within (mask (final res)) (refined_mask a)"
      by (simp add: res finish_def e)
    with pos lm show ?thesis
      by (simp add: mask_within_def)
  qed
  from at lm none some fin show ?thesis
    by (simp only: what.simps) blast
qed

text \<open>
  Two tissues on two voxels, the first with a NaN and the second with the sum -2: no voxel
  is valid and the command throws. With a third voxel of sum 3 that voxel alone is kept.
  Three tissues whose sums overflow at the first voxel and cancel at the second: no voxel
  is valid. One tissue on five voxels, the fourth a NaN and the fifth negative: the
  initial mask is the first three voxels, and the command returns with this mask.
\<close>

lemma Choleski_ones: "Choleski (Suc 0) [[1], [1], [1]] [0, 0, 0] = [0]"
  by (simp add: Choleski_def XtX_def Xty_def llt_def unblocked.simps solve_def solveU.simps
      llt_column_def Let_def)

lemma run_five_voxels:
  "\<exists>res. run \<lparr>input_images = [[[Fin 1], [Fin 1], [Fin 1], [NaN], [Fin (- 3)]]],
        orig_mask = [True, True, True, True, True],
        voxel2scanner = [(0, 0, 0), (1, 0, 0), (2, 0, 0), (3, 0, 0), (4, 0, 0)],
        order = 0, niter = 1, reference_value = 1, output_balanced = False\<rparr> = Inr res \<and>
      mask (final res) = [True, True, True, False, False] \<and> num_voxels (final res) = 3"
  by (simp add: run_def initialise_def refined_mask_def summed_image_def ValueAccumulator_def
        mask_refiner_def combined_image_def fmax0_def Let_def
        iterate_def outlier_rejection_def summed_log_value_def
        outlier_pass_eq quartile_index_lower quartile_index_upper
        outer_loop.simps balance_loop.simps balance_pass_def max_balance_iter_def
        DEFAULT_BALANCE_MAXITER_VALUE_def
        fit_field_def field_basis_def field_y_def Choleski_ones dot_def finish_def)

theorem initial_mask_spec_witness:
  "(let a = \<lparr>input_images = [[[NaN], [Fin (- 3)]], [[Fin 1], [Fin 1]]], orig_mask = [True, True],
             voxel2scanner = [(0, 0, 0), (1, 0, 0)], order = 3, niter = 15,
             reference_value = 1, output_balanced = False\<rparr>
    in input_images a \<noteq> [] \<and>
       list_all (\<lambda>img. length img = length (orig_mask a)) (input_images a) \<and>
       refined_mask a = [False, False] \<and>
       count_voxels (refined_mask a) 0 = 0 \<and>
       run a = Inl (Exception MaskNoValidVoxels)) \<and>
   refined_mask \<lparr>input_images = [[[NaN], [Fin (- 3)], [Fin 2]], [[Fin 1], [Fin 1], [Fin 1]]],
             orig_mask = [True, True, True],
             voxel2scanner = [(0, 0, 0), (1, 0, 0), (2, 0, 0)], order = 3, niter = 15,
             reference_value = 1, output_balanced = False\<rparr> = [False, False, True] \<and>
   refined_mask \<lparr>input_images = [[[Fin (2 ^ 127)], [Fin 16777216]],
                                  [[Fin (2 ^ 127)], [Fin 1]],
                                  [[Fin 0], [Fin (- 16777216)]]],
                  orig_mask = [True, True],
                  voxel2scanner = [(0, 0, 0), (1, 0, 0)], order = 3, niter = 15,
                  reference_value = 1, output_balanced = False\<rparr> = [False, False] \<and>
   (let b = \<lparr>input_images = [[[Fin 1], [Fin 1], [Fin 1], [NaN], [Fin (- 3)]]],
             orig_mask = [True, True, True, True, True],
             voxel2scanner = [(0, 0, 0), (1, 0, 0), (2, 0, 0), (3, 0, 0), (4, 0, 0)],
             order = 0, niter = 1, reference_value = 1, output_balanced = False\<rparr>
    in input_images b \<noteq> [] \<and>
       list_all (\<lambda>img. length img = length (orig_mask b)) (input_images b) \<and>
       refined_mask b = [True, True, True, False, False] \<and>
       0 < count_voxels (refined_mask b) 0 \<and>
       (\<exists>e s. initialise b = Inr (e, s) \<and> initial_mask e = [True, True, True, False, False] \<and>
              mask s = [True, True, True, False, False] \<and> num_voxels s = 3) \<and>
       (\<exists>res. run b = Inr res \<and> \<not> mask (final res) ! 3 \<and> \<not> mask (final res) ! 4))"
proof -
  define a where "a = \<lparr>input_images = [[[NaN], [Fin (- 3)]], [[Fin 1], [Fin 1]]],
             orig_mask = [True, True],
             voxel2scanner = [(0, 0, 0), (1, 0, 0 :: real)], order = 3, niter = 15,
             reference_value = 1, output_balanced = False\<rparr>"
  define b where "b = \<lparr>input_images = [[[Fin 1], [Fin 1], [Fin 1], [NaN], [Fin (- 3)]]],
             orig_mask = [True, True, True, True, True],
             voxel2scanner = [(0, 0, 0), (1, 0, 0), (2, 0, 0), (3, 0, 0), (4, 0, 0 :: real)],
             order = 0, niter = 1, reference_value = 1, output_balanced = False\<rparr>"
  have h1: "input_images a \<noteq> []"
    by (simp add: a_def)
  have h2: "\<forall>img \<in> set (input_images a). length img = length (orig_mask a)"
    by (simp add: a_def)
  have h3: "count_voxels (refined_mask a) 0 = 0"
    by (simp add: a_def refined_mask_def summed_image_def ValueAccumulator_def mask_refiner_def)
  from initial_mask_spec [OF h1 h2] h3 have "run a = Inl (Exception MaskNoValidVoxels)"
    by blast
  moreover have "refined_mask a = [False, False]"
    by (simp add: a_def refined_mask_def summed_image_def ValueAccumulator_def mask_refiner_def)
  moreover have "list_all (\<lambda>img. length img = length (orig_mask a)) (input_images a)"
    by (simp add: a_def)
  ultimately have A: "input_images a \<noteq> [] \<and>
       list_all (\<lambda>img. length img = length (orig_mask a)) (input_images a) \<and>
       refined_mask a = [False, False] \<and>
       count_voxels (refined_mask a) 0 = 0 \<and>
       run a = Inl (Exception MaskNoValidVoxels)"
    using h1 h3 by simp
  have g1: "input_images b \<noteq> []"
    by (simp add: b_def)
  have g2: "\<forall>img \<in> set (input_images b). length img = length (orig_mask b)"
    by (simp add: b_def)
  have rb: "refined_mask b = [True, True, True, False, False]"
    by (simp add: b_def refined_mask_def summed_image_def ValueAccumulator_def mask_refiner_def)
  then have g3: "0 < count_voxels (refined_mask b) 0"
    by simp
  obtain res where res: "run b = Inr res"
    using run_five_voxels unfolding b_def by blast
  have lb: "length (orig_mask b) = 5"
    by (simp add: b_def)
  from initial_mask_spec [OF g1 g2] g3 res
  have init: "\<exists>e s. initialise b = Inr (e, s) \<and> initial_mask e = refined_mask b \<and>
           mask s = refined_mask b \<and> num_voxels s = count_voxels (refined_mask b) 0"
    and sub: "\<forall>v < length (orig_mask b). mask (final res) ! v \<longrightarrow> refined_mask b ! v"
    by blast+
  have "3 < length (orig_mask b)" "4 < length (orig_mask b)"
    by (simp_all add: lb)
  with sub have "mask (final res) ! 3 \<longrightarrow> refined_mask b ! 3"
    "mask (final res) ! 4 \<longrightarrow> refined_mask b ! 4"
    by blast+
  then have "\<not> mask (final res) ! 3" "\<not> mask (final res) ! 4"
    by (simp_all add: rb)
  with res have "\<exists>res. run b = Inr res \<and> \<not> mask (final res) ! 3 \<and> \<not> mask (final res) ! 4"
    by blast
  moreover from init have "\<exists>e s. initialise b = Inr (e, s) \<and>
      initial_mask e = [True, True, True, False, False] \<and>
      mask s = [True, True, True, False, False] \<and> num_voxels s = 3"
    unfolding rb by (simp add: numeral_3_eq_3)
  moreover have "list_all (\<lambda>img. length img = length (orig_mask b)) (input_images b)"
    by (simp add: b_def)
  ultimately have B: "input_images b \<noteq> [] \<and>
       list_all (\<lambda>img. length img = length (orig_mask b)) (input_images b) \<and>
       refined_mask b = [True, True, True, False, False] \<and>
       0 < count_voxels (refined_mask b) 0 \<and>
       (\<exists>e s. initialise b = Inr (e, s) \<and> initial_mask e = [True, True, True, False, False] \<and>
              mask s = [True, True, True, False, False] \<and> num_voxels s = 3) \<and>
       (\<exists>res. run b = Inr res \<and> \<not> mask (final res) ! 3 \<and> \<not> mask (final res) ! 4)"
    using g1 g3 rb by simp
  have C: "refined_mask \<lparr>input_images = [[[NaN], [Fin (- 3)], [Fin 2]], [[Fin 1], [Fin 1], [Fin 1]]],
             orig_mask = [True, True, True],
             voxel2scanner = [(0, 0, 0), (1, 0, 0), (2, 0, 0)], order = 3, niter = 15,
             reference_value = 1, output_balanced = False\<rparr> = [False, False, True]"
    by (simp add: refined_mask_def summed_image_def ValueAccumulator_def mask_refiner_def)
  note D = refined_mask_single_precision
  from A B C D show ?thesis
    unfolding a_def b_def Let_def by blast
qed

subsection \<open>Masks of one or two voxels\<close>

text \<open>
  Whenever the initial mask has one or two active voxels, the coarse rejection reads past
  the end of the collected values: the behaviour of the command is undefined.
\<close>

lemma run_small_mask_undefined:
  assumes imgs: "input_images a \<noteq> []"
    and size: "\<forall>img \<in> set (input_images a). length img = length (orig_mask a)"
    and small: "count_voxels (refined_mask a) 0 = 1 \<or> count_voxels (refined_mask a) 0 = 2"
  shows "run a = Inl Undefined"
proof -
  define n where "n = length (orig_mask a)"
  have hd: "length (hd (input_images a)) = n"
    using imgs size by (cases "input_images a") (auto simp: n_def)
  have lm: "length (refined_mask a) = n"
    using length_summed_image [OF imgs size] by (simp add: refined_mask_def n_def)
  define slog where "slog = map2 (summed_log_value (replicate (length (input_images a)) 1))
      (combined_image (input_images a)) (replicate n 1)"
  have len: "length slog = length (refined_mask a)"
    by (simp add: slog_def combined_image_def hd lm)
  have N: "length (collect (refined_mask a) slog) = count_voxels (refined_mask a) 0"
    by (rule length_collect [OF len])
  have "\<not> quartile_index (count_voxels (refined_mask a) 0) 0.75 < count_voxels (refined_mask a) 0"
    using small by (auto simp: quartile_index_upper)
  then have pass: "outlier_pass 3 (refined_mask a) slog = Inl Undefined"
    unfolding outlier_pass_eq [OF len] Let_def N by simp
  from small have "count_voxels (refined_mask a) 0 \<noteq> 0" by auto
  then show ?thesis
    using pass
    by (simp add: run_def initialise_def Let_def iterate_def outlier_rejection_def hd
        slog_def [symmetric])
qed

section \<open>The output\<close>

lemma ReadInOutput_first:
  "in_im \<noteq> [] \<Longrightarrow> zero_vec = replicate (length in_im) (Fin 0) \<Longrightarrow>
   ReadInOutput zero_vec m in_im nf ! 0 = fscale (fmax0 (in_im ! 0)) m nf"
  by (cases in_im) (auto simp: ReadInOutput_def fmax0_def)

lemma ReadInOutput_nth:
  "k < length in_im \<Longrightarrow> zero_vec = replicate (length in_im) (Fin 0) \<Longrightarrow>
   ReadInOutput zero_vec m in_im nf ! k =
     (if flt0 (hd in_im) then Fin 0 else fscale (in_im ! k) m nf)"
  by (auto simp: ReadInOutput_def)

text \<open>
  Claim C3, as stated, fails: the output is not the clamped input times the multiplier
  over the field at every volume. At a voxel whose first volume is 1 and second volume
  is -2 the second output volume is -2, not 0; at a voxel whose first volume is -1 and
  second volume is 2 the second output volume is 0, not 2.
\<close>

theorem output_not_clamped:
  "(let a = \<lparr>input_images = [[[Fin 1, Fin (- 2)], [Fin (- 1), Fin 2]]], orig_mask = [True, True],
             voxel2scanner = [(0, 0, 0), (1, 0, 0)], order = 3, niter = 15,
             reference_value = 1, output_balanced = False\<rparr>;
        s = \<lparr>mask = [True, True], prev_mask = [True, True],
             num_voxels = 2, balance_factors = [1], norm_field_weights = [],
             norm_field_log = [0, 0], norm_field_image = [1, 1], trace = []\<rparr>
    in output_image a s 0 ! 0 ! 1 = Fin (- 2) \<and>
       fscale (fmax0 (input_images a ! 0 ! 0 ! 1)) 1 (norm_field_image s ! 0) = Fin 0 \<and>
       output_image a s 0 ! 1 ! 1 = Fin 0 \<and>
       fscale (fmax0 (input_images a ! 0 ! 1 ! 1)) 1 (norm_field_image s ! 1) = Fin 2)"
  by (simp add: output_image_def ReadInOutput_def fmax0_def Let_def)

text \<open>
  Claim C3, amended. For tissue \<open>j\<close>, voxel \<open>v\<close> and volume \<open>k\<close> of an input whose rows
  all have the length of the first: the output is 0 if the first volume of the voxel is
  negative, and otherwise the input value (not clamped) times the multiplier (the balance
  factor of the tissue if the output is balanced, else 1) over the field at the voxel.
  For the first volume, and so for every 3-D input, that is the clamped input times the
  multiplier over the field.
\<close>

theorem output_image_value:
  assumes j: "j < length (input_images a)"
    and v: "v < length (input_images a ! j)" "v < length (norm_field_image s)"
    and vols: "length (input_images a ! j ! v) = length (hd (input_images a ! j))"
    and k: "k < length (input_images a ! j ! v)"
  shows "(let row = input_images a ! j ! v;
              m = (if output_balanced a then balance_factors s ! j else 1);
              nf = norm_field_image s ! v
          in output_image a s j ! v ! k =
               (if flt0 (row ! 0) then Fin 0 else fscale (row ! k) m nf) \<and>
             output_image a s j ! v ! 0 = fscale (fmax0 (row ! 0)) m nf)"
proof -
  from k have ne: "input_images a ! j ! v \<noteq> []" by auto
  then have hd: "hd (input_images a ! j ! v) = input_images a ! j ! v ! 0"
    by (simp add: hd_conv_nth)
  show ?thesis
    using v k ne
    by (simp add: output_image_def Let_def vols [symmetric] ReadInOutput_nth ReadInOutput_first hd
        fmax0_def)
qed

theorem output_image_value_witness:
  "(let a = \<lparr>input_images = [[[Fin 1, Fin (- 2)], [Fin (- 1), Fin 2]]], orig_mask = [True, True],
             voxel2scanner = [(0, 0, 0), (1, 0, 0)], order = 3, niter = 15,
             reference_value = 1, output_balanced = True\<rparr>;
        s = \<lparr>mask = [True, True], prev_mask = [True, True],
             num_voxels = 2, balance_factors = [3], norm_field_weights = [],
             norm_field_log = [0, 0], norm_field_image = [2, 4], trace = []\<rparr>
    in 0 < length (input_images a) \<and> 0 < length (input_images a ! 0) \<and>
       0 < length (norm_field_image s) \<and>
       length (input_images a ! 0 ! 0) = length (hd (input_images a ! 0)) \<and>
       1 < length (input_images a ! 0 ! 0) \<and>
       output_image a s 0 ! 0 ! 1 = Fin (- 3) \<and>
       output_image a s 0 ! 0 ! 0 = Fin (3 / 2))"
proof -
  define a where "a = \<lparr>input_images = [[[Fin 1, Fin (- 2)], [Fin (- 1), Fin 2]]],
             orig_mask = [True, True],
             voxel2scanner = [(0, 0, 0), (1, 0, 0 :: real)], order = 3, niter = 15,
             reference_value = 1, output_balanced = True\<rparr>"
  define s where "s = \<lparr>mask = [True, True], prev_mask = [True, True],
             num_voxels = 2, balance_factors = [3 :: real], norm_field_weights = [],
             norm_field_log = [0, 0], norm_field_image = [2, 4], trace = []\<rparr>"
  have h: "0 < length (input_images a)" "0 < length (input_images a ! 0)"
      "0 < length (norm_field_image s)"
      "length (input_images a ! 0 ! 0) = length (hd (input_images a ! 0))"
      "1 < length (input_images a ! 0 ! 0)"
    by (simp_all add: a_def s_def)
  from output_image_value [OF h]
  have "output_image a s 0 ! 0 ! 1 = Fin (- 3) \<and> output_image a s 0 ! 0 ! 0 = Fin (3 / 2)"
    by (simp add: a_def s_def Let_def fmax0_def)
  with h show ?thesis
    unfolding a_def [symmetric] s_def [symmetric] Let_def by simp
qed

section \<open>The controller\<close>

lemma max_balance_iter_7: "max_balance_iter = 7"
  by (simp add: max_balance_iter_def DEFAULT_BALANCE_MAXITER_VALUE_def)









subsection \<open>A run on three voxels\<close>

text \<open>
  One tissue of value 1 on three voxels, order 0, reference value 1 and two iterations:
  the field stays 1 and every balance loop ends after its first pass.
\<close>

lemma run_three_voxels:
  "run \<lparr>input_images = [[[Fin 1], [Fin 1], [Fin 1]]], orig_mask = [True, True, True],
        voxel2scanner = [(0, 0, 0), (1, 0, 0), (2, 0, 0)], order = 0, niter = 2,
        reference_value = 1, output_balanced = False\<rparr> =
   Inr \<lparr>out_images = [[[Fin 1], [Fin 1], [Fin 1]]],
        lognorm_scale = exp (exp (1 / 3) / 3),
        final = \<lparr>mask = [True, True, True], prev_mask = [True, True, True],
                  num_voxels = 3, balance_factors = [1], norm_field_weights = [0],
                  norm_field_log = [0, 0, 0], norm_field_image = [1, 1, 1],
                  trace = [Outlier_rejection 3,
                           Iteration 1, Balance_pass 1, Outlier_rejection 1.5,
                           Balance_converged True, Fit_field,
                           Iteration 2, Balance_pass 1, Outlier_rejection 1.5,
                           Balance_converged True, Fit_field]\<rparr>\<rparr>"
  by (simp add: run_def initialise_def refined_mask_def summed_image_def ValueAccumulator_def
        mask_refiner_def combined_image_def fmax0_def Let_def
        iterate_def outlier_rejection_def summed_log_value_def
        outlier_pass_eq quartile_index_lower quartile_index_upper
        outer_loop.simps balance_loop.simps balance_pass_def max_balance_iter_7
        fit_field_def field_basis_def field_y_def Choleski_ones dot_def finish_def
        compute_lognorm_scale_def LogNormScale_def output_image_def ReadInOutput_def)

text \<open>
  Claim C2 fails on the code. The functor \<^verbatim>\<open>LogNormScale\<close> applies the exponential and the
  division by \<open>num_voxels\<close> at every voxel, not once after the sum. On the run above the
  final mask is all three voxels and \<^verbatim>\<open>norm_field_log\<close> is 0 everywhere, so the exponential of
  the mean is 1; the command hands on \<open>exp (exp (1 / 3) / 3)\<close>.
\<close>

theorem lognorm_scale_not_mean:
  "\<exists>r. run \<lparr>input_images = [[[Fin 1], [Fin 1], [Fin 1]]], orig_mask = [True, True, True],
        voxel2scanner = [(0, 0, 0), (1, 0, 0), (2, 0, 0)], order = 0, niter = 2,
        reference_value = 1, output_balanced = False\<rparr> = Inr r \<and>
       mask (final r) = [True, True, True] \<and>
       norm_field_log (final r) = [0, 0, 0] \<and>
       num_voxels (final r) = 3 \<and>
       lognorm_scale r = exp (exp (1 / 3) / 3) \<and>
       lognorm_scale r \<noteq> exp ((0 + 0 + 0) / 3)"
  unfolding run_three_voxels by simp



section \<open>The balance factors\<close>

lemma length_solveL [simp]: "length (solveL L i dst) = length dst"
  by (induction i) (simp_all add: Let_def)

lemma length_solveU [simp]: "length (solveU L i dst) = length dst"
proof (induction L i dst rule: solveU.induct)
  case (1 L i dst)
  then show ?case
    by (subst solveU.simps) (simp add: Let_def)
qed

lemma length_Choleski [simp]: "length (Choleski n X y) = n"
  by (simp add: Choleski_def solve_def Xty_def Let_def)

lemma log_sum_loop_Inr:
  "log_sum_loop j bs acc = Inr ls \<Longrightarrow> (\<forall>b \<in> set bs. 0 < b) \<and> ls = acc + sum_list (map ln bs)"
proof (induction bs arbitrary: j acc)
  case Nil
  then show ?case by simp
next
  case (Cons b bs)
  from Cons.prems have b: "0 < b" and rest: "log_sum_loop (j + 1) bs (acc + ln b) = Inr ls"
    by (auto split: if_splits)
  from Cons.IH [OF rest] b show ?case by simp
qed

lemma estimate_balance_Inr:
  assumes "estimate_balance e s = Inr s'"
  shows "\<exists>S. log_sum_loop 0 (Choleski (n_tissue_types e) (balance_X e s)
                                (replicate (num_voxels s) 1)) 0 = Inr S \<and>
     balance_factors s' =
       map (\<lambda>b. b / exp (S / real (n_tissue_types e)))
           (Choleski (n_tissue_types e) (balance_X e s) (replicate (num_voxels s) 1))"
proof (cases "log_sum_loop 0 (Choleski (n_tissue_types e) (balance_X e s)
                                (replicate (num_voxels s) 1)) 0")
  case (Inl a)
  with assms show ?thesis
    by (simp add: estimate_balance_def Let_def)
next
  case (Inr S)
  with assms have "s' = s\<lparr>balance_factors := map (\<lambda>b. b / exp (S / real (n_tissue_types e)))
           (Choleski (n_tissue_types e) (balance_X e s) (replicate (num_voxels s) 1)),
        trace := trace s @ [Estimate_balance]\<rparr>"
    by (simp add: estimate_balance_def Let_def)
  with Inr show ?thesis by simp
qed

lemma log_sum_loop_Inl:
  assumes "k < length bs" and "bs ! k \<le> 0" and "\<forall>i < k. 0 < bs ! i"
  shows "log_sum_loop j bs acc = Inl (Exception (NonPositiveBalanceFactor (j + k + 1) (bs ! k)))"
  using assms
proof (induction bs arbitrary: j k acc)
  case Nil
  then show ?case by simp
next
  case (Cons b bs)
  show ?case
  proof (cases k)
    case 0
    with Cons.prems show ?thesis by simp
  next
    case (Suc k')
    with Cons.prems have "0 < b" by auto
    moreover have "log_sum_loop (j + 1) bs (acc + ln b) =
        Inl (Exception (NonPositiveBalanceFactor (j + 1 + k' + 1) (bs ! k')))"
      using Cons.prems Suc by (intro Cons.IH) auto
    ultimately show ?thesis
      using Suc by simp
  qed
qed

lemma ln_prod_list:
  "(\<forall>b \<in> set bs. 0 < b) \<Longrightarrow> 0 < prod_list bs \<and> ln (prod_list bs) = sum_list (map ln bs)"
  for bs :: "real list"
  by (induction bs) (auto simp: ln_mult)

lemma sum_list_ln_div:
  assumes "\<forall>b \<in> set bs. 0 < b" and "0 < g"
  shows "sum_list (map ln (map (\<lambda>b. b / g) bs)) = sum_list (map ln bs) - real (length bs) * ln g"
  using assms by (induction bs) (auto simp: ln_div algebra_simps)

lemma Choleski_identical:
  "Choleski 2 [[1, 1], [1, 1], [1, 1]] [1, 1, 1] = [1, 0]"
  by (simp add: Choleski_def XtX_def Xty_def llt_def unblocked.simps solve_def solveU.simps
      llt_column_def Let_def numeral_2_eq_2 power_divide)

lemma Choleski_half:
  "Choleski 2 [[1/2, 0], [0, 1/2]] [1, 1] = [2, 2]"
  by (simp add: Choleski_def XtX_def Xty_def llt_def unblocked.simps solve_def solveU.simps
      llt_column_def Let_def numeral_2_eq_2 power_divide real_sqrt_divide)

lemma balance_X_trace [simp]: "balance_X e (s\<lparr>trace := t\<rparr>) = balance_X e s"
  by (simp add: balance_X_def)

text \<open>
  Claim C6. With more than one tissue, a balance estimation that returns leaves the
  factors that the solver computed, all of them positive, divided by their geometric
  mean (the \<open>n\<close>-th root of their product); the logarithms of the factors it leaves sum
  to 0, which is within the tolerance 1e-9. (Real arithmetic: rounding is not modelled.)
\<close>

theorem balance_factors_log_sum:
  assumes res: "estimate_balance e s = Inr s'"
    and n: "1 < n_tissue_types e"
  shows "(let raw = Choleski (n_tissue_types e) (balance_X e s) (replicate (num_voxels s) 1);
              g = root (n_tissue_types e) (prod_list raw)
          in (\<forall>b \<in> set raw. 0 < b) \<and> 0 < g \<and>
             balance_factors s' = map (\<lambda>b. b / g) raw \<and>
             sum_list (map ln (balance_factors s')) = 0 \<and>
             \<bar>sum_list (map ln (balance_factors s'))\<bar> \<le> 1 / 10 ^ 9)"
proof -
  define raw where "raw = Choleski (n_tissue_types e) (balance_X e s) (replicate (num_voxels s) 1)"
  define S where "S = sum_list (map ln raw)"
  define g where "g = exp (S / real (n_tissue_types e))"
  from estimate_balance_Inr [OF res] obtain S' where loop': "log_sum_loop 0 raw 0 = Inr S'"
    and bf': "balance_factors s' = map (\<lambda>b. b / exp (S' / real (n_tissue_types e))) raw"
    unfolding raw_def by blast
  from log_sum_loop_Inr [OF loop'] have pos: "\<forall>b \<in> set raw. 0 < b" and "S' = S"
    by (simp_all add: S_def)
  with bf' have bf: "balance_factors s' = map (\<lambda>b. b / g) raw"
    by (simp add: g_def)
  have len: "length raw = n_tissue_types e"
    by (simp add: raw_def)
  have "0 < g" by (simp add: g_def)
  have "g ^ n_tissue_types e = exp S"
    unfolding g_def using n by (simp add: exp_of_nat_mult [symmetric])
  also have "\<dots> = exp (ln (prod_list raw))"
    using ln_prod_list [OF pos] unfolding S_def by (intro arg_cong [where f = exp]) simp
  also have "\<dots> = prod_list raw"
    using ln_prod_list [OF pos] by (intro exp_ln) simp
  finally have "root (n_tissue_types e) (prod_list raw) = g"
    using n \<open>0 < g\<close> by (metis real_root_power_cancel less_imp_le less_trans zero_less_one)
  moreover have "sum_list (map ln (map (\<lambda>b. b / g) raw)) = 0"
    unfolding sum_list_ln_div [OF pos \<open>0 < g\<close>] len
    using n by (simp add: g_def S_def)
  ultimately show ?thesis
    unfolding Let_def raw_def [symmetric]
    using pos bf \<open>0 < g\<close> by simp
qed

text \<open>
  Two tissues, each alone in one of two voxels with value 1, and a field of 2: the solver
  computes the factors 2 and 2, and the estimation leaves 1 and 1.
\<close>

theorem balance_factors_log_sum_witness:
  "(let e = \<lparr>n_tissue_types = 2, combined_tissue = [[1, 0], [0, 1]],
             initial_mask = [True, True], scanner_pos = [(0, 0, 0), (1, 0, 0)],
             n_basis_vecs = 1, log_ref_value = 0, max_iter = 15\<rparr>;
        s = \<lparr>mask = [True, True], prev_mask = [True, True],
             num_voxels = 2, balance_factors = [1, 1], norm_field_weights = [],
             norm_field_log = [0, 0], norm_field_image = [2, 2], trace = []\<rparr>
    in 1 < n_tissue_types e \<and>
       Choleski (n_tissue_types e) (balance_X e s) (replicate (num_voxels s) 1) = [2, 2] \<and>
       (\<exists>s'. estimate_balance e s = Inr s' \<and> balance_factors s' = [1, 1] \<and>
             sum_list (map ln (balance_factors s')) = 0))"
proof -
  define e where "e = \<lparr>n_tissue_types = 2, combined_tissue = [[1, 0], [0, 1 :: real]],
             initial_mask = [True, True], scanner_pos = [(0, 0, 0), (1, 0, 0 :: real)],
             n_basis_vecs = 1, log_ref_value = 0, max_iter = 15\<rparr>"
  define s where "s = \<lparr>mask = [True, True], prev_mask = [True, True],
             num_voxels = 2, balance_factors = [1, 1 :: real], norm_field_weights = [],
             norm_field_log = [0, 0], norm_field_image = [2, 2], trace = []\<rparr>"
  have raw: "Choleski (n_tissue_types e) (balance_X e s) (replicate (num_voxels s) 1) = [2, 2]"
    using Choleski_half by (simp add: e_def s_def balance_X_def numeral_2_eq_2)
  have n: "1 < n_tissue_types e"
    by (simp add: e_def)
  define s' where "s' = s\<lparr>balance_factors := [1, 1], trace := trace s @ [Estimate_balance]\<rparr>"
  have res: "estimate_balance e s = Inr s'"
    unfolding estimate_balance_def Let_def raw
    by (simp add: s'_def e_def ln_mult [symmetric] flip: ln_realpow)
  from balance_factors_log_sum [OF res n]
  have "sum_list (map ln (balance_factors s')) = 0"
    unfolding Let_def by blast
  with res raw n have "1 < n_tissue_types e \<and>
       Choleski (n_tissue_types e) (balance_X e s) (replicate (num_voxels s) 1) = [2, 2] \<and>
       (\<exists>s'. estimate_balance e s = Inr s' \<and> balance_factors s' = [1, 1] \<and>
             sum_list (map ln (balance_factors s')) = 0)"
    by (auto simp: s'_def)
  then show ?thesis
    unfolding e_def s_def Let_def by simp
qed

subsection \<open>Aborts\<close>

text \<open>An abort of a pass is the result of the loops around it and of the command.\<close>

lemma balance_loop_abort:
  "b \<le> max_balance_iter \<Longrightarrow> balance_pass e b s = Inl x \<Longrightarrow> balance_loop e b False s = Inl x"
  by (subst balance_loop.simps) simp

lemma balance_loop_abort_later:
  "b \<le> max_balance_iter \<Longrightarrow> balance_pass e b s = Inr (c, s1) \<Longrightarrow>
   balance_loop e (b + 1) c s1 = Inl x \<Longrightarrow> balance_loop e b False s = Inl x"
  by (subst balance_loop.simps) simp

lemma outer_loop_abort:
  "i \<le> max_iter e \<Longrightarrow> balance_loop e 1 False (s\<lparr>trace := trace s @ [Iteration i]\<rparr>) = Inl x \<Longrightarrow>
   outer_loop e i s = Inl x"
  by (subst outer_loop.simps) simp

lemma outer_loop_abort_later:
  "i \<le> max_iter e \<Longrightarrow> balance_loop e 1 False (s\<lparr>trace := trace s @ [Iteration i]\<rparr>) = Inr s1 \<Longrightarrow>
   outer_loop e (i + 1) (fit_field e s1) = Inl x \<Longrightarrow> outer_loop e i s = Inl x"
  by (subst outer_loop.simps) simp

lemma iterate_abort:
  "outlier_rejection e 3 s = Inr s1 \<Longrightarrow> outer_loop e 1 (s1\<lparr>prev_mask := mask s1\<rparr>) = Inl x \<Longrightarrow>
   iterate e s = Inl x"
  by (simp add: iterate_def)

lemma run_abort:
  "initialise a = Inr (e, s) \<Longrightarrow> iterate e s = Inl x \<Longrightarrow> run a = Inl x"
  by (simp add: run_def)

lemma first_nonpositive_factor_aborts:
  assumes n: "1 < n_tissue_types e"
    and j: "j < n_tissue_types e"
      "Choleski (n_tissue_types e) (balance_X e s) (replicate (num_voxels s) 1) ! j \<le> 0"
      "\<forall>i < j. 0 < Choleski (n_tissue_types e) (balance_X e s) (replicate (num_voxels s) 1) ! i"
  shows "(let x = Exception (NonPositiveBalanceFactor (j + 1)
                  (Choleski (n_tissue_types e) (balance_X e s) (replicate (num_voxels s) 1) ! j))
          in estimate_balance e s = Inl x \<and>
             balance_pass e b s = Inl x \<and>
             (b \<le> max_balance_iter \<longrightarrow> balance_loop e b False s = Inl x) \<and>
             (it \<le> max_iter e \<longrightarrow> outer_loop e it s = Inl x))"
proof -
  define raw where "raw = Choleski (n_tissue_types e) (balance_X e s) (replicate (num_voxels s) 1)"
  define x where "x = Exception (NonPositiveBalanceFactor (j + 1) (raw ! j))"
  have len: "j < length raw"
    using j(1) by (simp add: raw_def)
  have loop: "log_sum_loop 0 raw 0 = Inl x"
    using log_sum_loop_Inl [OF len, of 0 0] j(2,3) by (simp add: raw_def x_def)
  have est: "estimate_balance e (s\<lparr>trace := t\<rparr>) = Inl x" for t
    using loop by (simp add: estimate_balance_def Let_def raw_def)
  have pass: "balance_pass e b' (s\<lparr>trace := t\<rparr>) = Inl x" for b' t
    using n est by (simp add: balance_pass_def Let_def)
  from est [of "trace s"] have "estimate_balance e s = Inl x"
    by simp
  moreover from pass [of b "trace s"] have pass0: "balance_pass e b s = Inl x"
    by simp
  moreover have "balance_loop e b False s = Inl x" if "b \<le> max_balance_iter"
    using that pass0 by (rule balance_loop_abort)
  moreover have "outer_loop e it s = Inl x" if "it \<le> max_iter e"
    using that
    by (rule outer_loop_abort) (simp add: balance_loop_abort pass max_balance_iter_7)
  ultimately show ?thesis
    unfolding Let_def raw_def [symmetric] x_def [symmetric] by simp
qed

text \<open>
  Claim C7. With more than one tissue, in a state where the solver computes a factor that
  is not positive: the estimation throws the exception that carries the index \<open>j + 1\<close> of
  the first such tissue \<open>j\<close> (counted from 0) and the factor as the solver computed it,
  not rescaled; the pass \<open>b\<close> that makes this estimation, the balance loop that is at this
  pass and the outer loop that starts an iteration in this state end with the same
  exception and no state. By the lemmas above the abort of a later pass or a later
  iteration is the result of the whole loop as well, and of the command, which then has no
  result.
\<close>

theorem nonpositive_balance_factor_aborts:
  assumes n: "1 < n_tissue_types e"
    and any: "\<exists>j < n_tissue_types e.
      Choleski (n_tissue_types e) (balance_X e s) (replicate (num_voxels s) 1) ! j \<le> 0"
  shows "\<exists>j < n_tissue_types e.
     (let raw = Choleski (n_tissue_types e) (balance_X e s) (replicate (num_voxels s) 1);
          x = Exception (NonPositiveBalanceFactor (j + 1) (raw ! j))
      in raw ! j \<le> 0 \<and> (\<forall>i < j. 0 < raw ! i) \<and>
         estimate_balance e s = Inl x \<and>
         balance_pass e b s = Inl x \<and>
         (b \<le> max_balance_iter \<longrightarrow> balance_loop e b False s = Inl x) \<and>
         (it \<le> max_iter e \<longrightarrow> outer_loop e it s = Inl x))"
proof -
  define raw where "raw = Choleski (n_tissue_types e) (balance_X e s) (replicate (num_voxels s) 1)"
  define j where "j = (LEAST j. j < n_tissue_types e \<and> raw ! j \<le> 0)"
  from any have ex: "\<exists>j. j < n_tissue_types e \<and> raw ! j \<le> 0"
    by (auto simp: raw_def)
  then have "j < n_tissue_types e \<and> raw ! j \<le> 0"
    unfolding j_def by (rule LeastI_ex)
  then have j: "j < n_tissue_types e" "raw ! j \<le> 0"
    by simp_all
  have first: "\<forall>i < j. 0 < raw ! i"
  proof (intro allI impI)
    fix i assume "i < j"
    then have "\<not> (i < n_tissue_types e \<and> raw ! i \<le> 0)"
      unfolding j_def by (rule not_less_Least)
    with \<open>i < j\<close> j(1) show "0 < raw ! i" by simp
  qed
  from first_nonpositive_factor_aborts
    [OF n j(1) j(2) [unfolded raw_def] first [unfolded raw_def], of b it]
  show ?thesis
    using j first unfolding raw_def Let_def by blast
qed

text \<open>
  Two identical tissues of value 1 on three voxels: the normal equations are singular, the
  solver returns the factors 1 and 0, and the command ends with the exception for tissue
  2 and factor 0.
\<close>

lemma run_identical_tissues:
  "run \<lparr>input_images = [[[Fin 1], [Fin 1], [Fin 1]], [[Fin 1], [Fin 1], [Fin 1]]],
        orig_mask = [True, True, True],
        voxel2scanner = [(0, 0, 0), (1, 0, 0), (2, 0, 0)], order = 0, niter = 15,
        reference_value = 1, output_balanced = False\<rparr> =
   Inl (Exception (NonPositiveBalanceFactor 2 0))"
  by (simp add: run_def initialise_def refined_mask_def summed_image_def ValueAccumulator_def
        mask_refiner_def combined_image_def fmax0_def Let_def
        iterate_def outlier_rejection_def summed_log_value_def
        outlier_pass_eq quartile_index_lower quartile_index_upper
        outer_loop.simps [of _ "Suc 0"] balance_loop.simps [of _ "Suc 0"] balance_pass_def max_balance_iter_7
        estimate_balance_def balance_X_def Choleski_identical [simplified numeral_2_eq_2]
        numeral_2_eq_2)

theorem nonpositive_balance_factor_aborts_witness:
  "(let e = \<lparr>n_tissue_types = 2, combined_tissue = [[1, 1], [1, 1], [1, 1]],
             initial_mask = [True, True, True],
             scanner_pos = [(0, 0, 0), (1, 0, 0), (2, 0, 0)],
             n_basis_vecs = 1, log_ref_value = 0, max_iter = 15\<rparr>;
        s = \<lparr>mask = [True, True, True], prev_mask = [True, True, True],
             num_voxels = 3, balance_factors = [1, 1], norm_field_weights = [],
             norm_field_log = [0, 0, 0], norm_field_image = [1, 1, 1],
             trace = [Outlier_rejection 3]\<rparr>;
        raw = Choleski (n_tissue_types e) (balance_X e s) (replicate (num_voxels s) 1)
    in 1 < n_tissue_types e \<and> raw = [1, 0] \<and> raw ! 1 \<le> 0 \<and> 0 < raw ! 0 \<and>
       estimate_balance e s = Inl (Exception (NonPositiveBalanceFactor 2 0)) \<and>
       balance_pass e 1 s = Inl (Exception (NonPositiveBalanceFactor 2 0)) \<and>
       balance_loop e 1 False s = Inl (Exception (NonPositiveBalanceFactor 2 0)) \<and>
       outer_loop e 1 s = Inl (Exception (NonPositiveBalanceFactor 2 0))) \<and>
   run \<lparr>input_images = [[[Fin 1], [Fin 1], [Fin 1]], [[Fin 1], [Fin 1], [Fin 1]]],
        orig_mask = [True, True, True],
        voxel2scanner = [(0, 0, 0), (1, 0, 0), (2, 0, 0)], order = 0, niter = 15,
        reference_value = 1, output_balanced = False\<rparr> =
     Inl (Exception (NonPositiveBalanceFactor 2 0))"
proof -
  define e where "e = \<lparr>n_tissue_types = 2, combined_tissue = [[1, 1], [1, 1], [1, 1 :: real]],
             initial_mask = [True, True, True],
             scanner_pos = [(0, 0, 0), (1, 0, 0), (2, 0, 0 :: real)],
             n_basis_vecs = 1, log_ref_value = 0, max_iter = 15\<rparr>"
  define s where "s = \<lparr>mask = [True, True, True], prev_mask = [True, True, True],
             num_voxels = 3, balance_factors = [1, 1 :: real], norm_field_weights = [],
             norm_field_log = [0, 0, 0], norm_field_image = [1, 1, 1],
             trace = [Outlier_rejection 3]\<rparr>"
  define raw where "raw = Choleski (n_tissue_types e) (balance_X e s) (replicate (num_voxels s) 1)"
  have raw: "raw = [1, 0]"
    using Choleski_identical by (simp add: raw_def e_def s_def balance_X_def numeral_3_eq_3)
  have n: "1 < n_tissue_types e" and n2: "n_tissue_types e = 2"
    by (simp_all add: e_def)
  have "1 < n_tissue_types e \<and> raw ! 1 \<le> 0"
    using n by (simp add: raw)
  then have any: "\<exists>j < n_tissue_types e.
      Choleski (n_tissue_types e) (balance_X e s) (replicate (num_voxels s) 1) ! j \<le> 0"
    unfolding raw_def by blast
  have b: "1 \<le> max_balance_iter" "1 \<le> max_iter e"
    by (simp_all add: max_balance_iter_7 e_def)
  from nonpositive_balance_factor_aborts [OF n any, of 1 1]
  obtain j where j: "j < n_tissue_types e" "raw ! j \<le> 0"
    and res: "estimate_balance e s = Inl (Exception (NonPositiveBalanceFactor (j + 1) (raw ! j)))"
      "balance_pass e 1 s = Inl (Exception (NonPositiveBalanceFactor (j + 1) (raw ! j)))"
      "balance_loop e 1 False s = Inl (Exception (NonPositiveBalanceFactor (j + 1) (raw ! j)))"
      "outer_loop e 1 s = Inl (Exception (NonPositiveBalanceFactor (j + 1) (raw ! j)))"
    unfolding Let_def raw_def [symmetric] using b by blast
  from j have "j = 1"
    unfolding n2 raw by (cases j) auto
  with res raw n
  have "1 < n_tissue_types e \<and> raw = [1, 0] \<and> raw ! 1 \<le> 0 \<and> 0 < raw ! 0 \<and>
       estimate_balance e s = Inl (Exception (NonPositiveBalanceFactor 2 0)) \<and>
       balance_pass e 1 s = Inl (Exception (NonPositiveBalanceFactor 2 0)) \<and>
       balance_loop e 1 False s = Inl (Exception (NonPositiveBalanceFactor 2 0)) \<and>
       outer_loop e 1 s = Inl (Exception (NonPositiveBalanceFactor 2 0))"
    by simp
  then show ?thesis
    unfolding raw_def e_def s_def Let_def using run_identical_tissues by simp
qed

section \<open>The linear solver\<close>

subsection \<open>The factorisation\<close>

lemma square_row: "square n mat \<Longrightarrow> i < n \<Longrightarrow> length (mat ! i) = n"
  by (auto simp: square_def list_all_length)

lemma sum_list_upt: "(\<Sum>j\<leftarrow>[0..<k]. f j) = sum f {..<k}" for f :: "nat \<Rightarrow> real"
  by (simp add: interv_sum_list_conv_sum_set_nat atLeast0LessThan)

lemma llt_column_square: "square n mat \<Longrightarrow> square n (llt_column k x mat)"
  by (auto simp: square_def llt_column_def list_all_length)

lemma llt_column_nth:
  assumes "square n mat" and "i < n" and "c < n"
  shows "llt_column k x mat ! i ! c =
     (if c = k \<and> i = k then x
      else if c = k \<and> k < i
      then (mat ! i ! k - (\<Sum>j<k. mat ! i ! j * mat ! k ! j)) / x
      else mat ! i ! c)"
  using assms square_row [OF assms(1)]
  by (auto simp: llt_column_def square_def sum_list_upt nth_list_update)

lemma factored_step:
  assumes inv: "factored n k A mat" and k: "k < n"
    and x: "x = mat ! k ! k - (\<Sum>j<k. (mat ! k ! j)\<^sup>2)" "0 < x"
  shows "factored n (k + 1) A (llt_column k (sqrt x) mat)"
proof -
  let ?m = "llt_column k (sqrt x) mat"
  from inv have sq: "square n mat" by (simp add: factored_def)
  have nth: "?m ! i ! c =
     (if c = k \<and> i = k then sqrt x
      else if c = k \<and> k < i
      then (mat ! i ! k - (\<Sum>j<k. mat ! i ! j * mat ! k ! j)) / sqrt x
      else mat ! i ! c)" if "i < n" "c < n" for i c
    by (rule llt_column_nth [OF sq that])
  have pos: "0 < sqrt x" using x(2) by simp
  have unchanged: "\<forall>i < n. \<forall>c < n. k + 1 \<le> c \<longrightarrow> ?m ! i ! c = A ! i ! c"
    using inv by (auto simp: nth factored_def)
  have old: "0 < ?m ! c ! c \<and> (\<forall>i < n. c \<le> i \<longrightarrow> (\<Sum>t\<le>c. ?m ! i ! t * ?m ! c ! t) = A ! i ! c)"
    if "c < k" for c
  proof -
    from that k have cn: "c < n" by simp
    have same: "?m ! i ! t = mat ! i ! t" if "i < n" "t \<le> c" for i t
      using that \<open>c < k\<close> k by (simp add: nth)
    have "(\<Sum>t\<le>c. ?m ! i ! t * ?m ! c ! t) = (\<Sum>t\<le>c. mat ! i ! t * mat ! c ! t)" if "i < n" for i
      using that cn by (intro sum.cong) (simp_all add: same)
    moreover have "?m ! c ! c = mat ! c ! c"
      using cn by (simp add: same)
    ultimately show ?thesis
      using inv \<open>c < k\<close> by (simp add: factored_def)
  qed
  have new: "0 < ?m ! k ! k \<and> (\<forall>i < n. k \<le> i \<longrightarrow> (\<Sum>t\<le>k. ?m ! i ! t * ?m ! k ! t) = A ! i ! k)"
  proof (intro conjI allI impI)
    show "0 < ?m ! k ! k" using k pos by (simp add: nth)
  next
    fix i assume i: "i < n" "k \<le> i"
    have below: "(\<Sum>t<k. ?m ! i ! t * ?m ! k ! t) = (\<Sum>t<k. mat ! i ! t * mat ! k ! t)"
      using i k by (intro sum.cong) (simp_all add: nth)
    have split: "(\<Sum>t\<le>k. ?m ! i ! t * ?m ! k ! t) =
        (\<Sum>t<k. ?m ! i ! t * ?m ! k ! t) + ?m ! i ! k * ?m ! k ! k"
      by (simp add: lessThan_Suc_atMost [symmetric])
    have Aik: "mat ! i ! k = A ! i ! k"
      using inv i k by (simp add: factored_def)
    show "(\<Sum>t\<le>k. ?m ! i ! t * ?m ! k ! t) = A ! i ! k"
    proof (cases "i = k")
      case True
      have "(\<Sum>t<k. mat ! k ! t * mat ! k ! t) + sqrt x * sqrt x = mat ! k ! k"
        using x by (simp add: power2_eq_square)
      then show ?thesis
        unfolding split below using True k Aik by (simp add: nth)
    next
      case False
      with i have "k < i" by simp
      then show ?thesis
        unfolding split below using i k pos Aik by (simp add: nth)
    qed
  qed
  show ?thesis
    unfolding factored_def
    using llt_column_square [OF sq] unchanged old new
    by (auto simp: less_Suc_eq)
qed

lemma unblocked_factored:
  "factored n k A mat \<Longrightarrow> k \<le> n \<Longrightarrow> m_info (unblocked k mat) = Success \<Longrightarrow>
   factored n n A (m_matrix (unblocked k mat))"
proof (induction k mat rule: unblocked.induct)
  case (1 k mat)
  from "1.prems"(1) have len: "length mat = n"
    by (simp add: factored_def square_def)
  show ?case
  proof (cases "k < n")
    case False
    with "1.prems" len show ?thesis
      by (subst unblocked.simps) simp
  next
    case True
    define x where "x = mat ! k ! k - (\<Sum>j<k. (mat ! k ! j)\<^sup>2)"
    have xl: "mat ! k ! k - (\<Sum>j\<leftarrow>[0..<k]. (mat ! k ! j)\<^sup>2) = x"
      by (simp add: x_def sum_list_upt)
    from "1.prems"(3) True len have pos: "0 < x"
      by (subst (asm) unblocked.simps) (auto simp: xl Let_def split: if_splits)
    have eq: "unblocked k mat = unblocked (k + 1) (llt_column k (sqrt x) mat)"
      using True len pos by (subst unblocked.simps) (simp add: xl Let_def)
    have "factored n n A (m_matrix (unblocked (k + 1) (llt_column k (sqrt x) mat)))"
    proof (rule "1.IH")
      show "k < length mat" using True len by simp
      show "x = mat ! k ! k - (\<Sum>j\<leftarrow>[0..<k]. (mat ! k ! j)\<^sup>2)" by (simp add: xl)
      show "\<not> x \<le> 0" using pos by simp
      show "factored n (k + 1) A (llt_column k (sqrt x) mat)"
        by (rule factored_step [OF "1.prems"(1) True x_def pos])
      show "k + 1 \<le> n" using True by simp
      show "m_info (unblocked (k + 1) (llt_column k (sqrt x) mat)) = Success"
        using "1.prems"(3) eq by simp
    qed
    then show ?thesis by (simp add: eq)
  qed
qed

subsection \<open>The two triangular solves\<close>

lemma solveL_correct:
  assumes diag: "\<forall>r < length dst. L ! r ! r \<noteq> 0" and i: "i \<le> length dst"
  shows "(\<forall>r < length dst. i \<le> r \<longrightarrow> solveL L i dst ! r = dst ! r) \<and>
         (\<forall>r < i. (\<Sum>t\<le>r. L ! r ! t * solveL L i dst ! t) = dst ! r)"
  using i
proof (induction i)
  case 0
  then show ?case by simp
next
  case (Suc i)
  define d where "d = solveL L i dst"
  define v where "v = (d ! i - (\<Sum>t<i. L ! i ! t * d ! t)) / L ! i ! i"
  from Suc have IH: "\<forall>r < length dst. i \<le> r \<longrightarrow> d ! r = dst ! r"
      "\<forall>r < i. (\<Sum>t\<le>r. L ! r ! t * d ! t) = dst ! r"
    by (simp_all add: d_def)
  have step: "solveL L (Suc i) dst = d[i := v]"
    by (simp add: d_def v_def Let_def sum_list_upt)
  have len: "length d = length dst" by (simp add: d_def)
  from Suc.prems have i: "i < length dst" by simp
  have "d[i := v] ! r = dst ! r" if "r < length dst" "Suc i \<le> r" for r
    using that IH(1) len by simp
  moreover have "(\<Sum>t\<le>r. L ! r ! t * d[i := v] ! t) = dst ! r" if "r < Suc i" for r
  proof (cases "r = i")
    case False
    with that have "r < i" by simp
    then have "(\<Sum>t\<le>r. L ! r ! t * d[i := v] ! t) = (\<Sum>t\<le>r. L ! r ! t * d ! t)"
      by (intro sum.cong) simp_all
    with IH(2) \<open>r < i\<close> show ?thesis by simp
  next
    case True
    have "(\<Sum>t\<le>i. L ! i ! t * d[i := v] ! t) =
        (\<Sum>t<i. L ! i ! t * d[i := v] ! t) + L ! i ! i * d[i := v] ! i"
      by (simp add: lessThan_Suc_atMost [symmetric])
    also have "(\<Sum>t<i. L ! i ! t * d[i := v] ! t) = (\<Sum>t<i. L ! i ! t * d ! t)"
      by (intro sum.cong) simp_all
    also have "d[i := v] ! i = v"
      using i len by simp
    also have "(\<Sum>t<i. L ! i ! t * d ! t) + L ! i ! i * v = d ! i"
      using diag i by (simp add: v_def)
    finally show ?thesis
      using True IH(1) i by simp
  qed
  ultimately show ?case
    unfolding step by blast
qed

lemma solveU_correct:
  assumes diag: "\<forall>r < length dst. L ! r ! r \<noteq> 0"
  shows "(\<forall>r < i. solveU L i dst ! r = dst ! r) \<and>
         (\<forall>r < length dst. i \<le> r \<longrightarrow>
            (\<Sum>t = r..<length dst. L ! t ! r * solveU L i dst ! t) = dst ! r)"
  using diag
proof (induction L i dst rule: solveU.induct)
  case (1 L i dst)
  show ?case
  proof (cases "i < length dst")
    case False
    then show ?thesis
      by (subst (1 2) solveU.simps) simp
  next
    case True
    define n where "n = length dst"
    define d where "d = solveU L (i + 1) dst"
    define v where "v = (d ! i - (\<Sum>t = i + 1..<n. L ! t ! i * d ! t)) / L ! i ! i"
    from "1.IH" [OF True "1.prems"]
    have IH: "\<forall>r < i + 1. d ! r = dst ! r"
      "\<forall>r < n. i + 1 \<le> r \<longrightarrow> (\<Sum>t = r..<n. L ! t ! r * d ! t) = dst ! r"
      by (simp_all add: d_def n_def)
    have step: "solveU L i dst = d[i := v]"
      using True
      by (subst solveU.simps)
        (simp add: d_def v_def n_def Let_def interv_sum_list_conv_sum_set_nat)
    have len: "length d = n" by (simp add: d_def n_def)
    have i: "i < n" using True by (simp add: n_def)
    have "d[i := v] ! r = dst ! r" if "r < i" for r
      using that IH(1) by simp
    moreover have "(\<Sum>t = r..<n. L ! t ! r * d[i := v] ! t) = dst ! r"
      if "r < n" "i \<le> r" for r
    proof (cases "r = i")
      case False
      with that have "i + 1 \<le> r" by simp
      then have "(\<Sum>t = r..<n. L ! t ! r * d[i := v] ! t) = (\<Sum>t = r..<n. L ! t ! r * d ! t)"
        by (intro sum.cong) simp_all
      with IH(2) that \<open>i + 1 \<le> r\<close> show ?thesis by simp
    next
      case True
      have "(\<Sum>t = i..<n. L ! t ! i * d[i := v] ! t) =
          L ! i ! i * d[i := v] ! i + (\<Sum>t = i + 1..<n. L ! t ! i * d[i := v] ! t)"
        using i by (simp add: sum.atLeast_Suc_lessThan)
      also have "(\<Sum>t = i + 1..<n. L ! t ! i * d[i := v] ! t) = (\<Sum>t = i + 1..<n. L ! t ! i * d ! t)"
        by (intro sum.cong) simp_all
      also have "d[i := v] ! i = v"
        using i len by simp
      also have "L ! i ! i * v + (\<Sum>t = i + 1..<n. L ! t ! i * d ! t) = d ! i"
        using "1.prems" i by (simp add: v_def n_def)
      finally show ?thesis
        using True IH(1) by simp
    qed
    ultimately show ?thesis
      unfolding step n_def [symmetric] by blast
  qed
qed

subsection \<open>The normal equations\<close>

lemma sum_upto_restrict:
  "c < n \<Longrightarrow> (\<Sum>t<n. if t \<le> c then f t else 0) = (\<Sum>t\<le>c. f t)" for f :: "nat \<Rightarrow> real"
proof -
  assume "c < n"
  then have "{t \<in> {..<n}. t \<le> c} = {..c}" by auto
  then show ?thesis
    using sum.inter_filter [of "{..<n}" f "\<lambda>t. t \<le> c"] by simp
qed

lemma sum_from_restrict:
  "(\<Sum>c<n. if t \<le> c then g c else 0) = (\<Sum>c = t..<n. g c)" for g :: "nat \<Rightarrow> real"
proof -
  have "{c \<in> {..<n}. t \<le> c} = {t..<n}" by auto
  then show ?thesis
    using sum.inter_filter [of "{..<n}" g "\<lambda>c. t \<le> c"] by simp
qed

lemma factored_entry:
  assumes f: "factored n n A L" and sym: "\<forall>i < n. \<forall>c < n. A ! i ! c = A ! c ! i"
    and i: "i < n" and c: "c < n"
  shows "A ! i ! c = (\<Sum>t<n. if t \<le> i \<and> t \<le> c then L ! i ! t * L ! c ! t else 0)"
proof (cases "c \<le> i")
  case True
  have "(\<Sum>t<n. if t \<le> i \<and> t \<le> c then L ! i ! t * L ! c ! t else 0) =
      (\<Sum>t<n. if t \<le> c then L ! i ! t * L ! c ! t else 0)"
    using True by (intro sum.cong) auto
  also have "\<dots> = (\<Sum>t\<le>c. L ! i ! t * L ! c ! t)"
    by (rule sum_upto_restrict [OF c])
  also have "\<dots> = A ! i ! c"
    using f i c True by (simp add: factored_def)
  finally show ?thesis by simp
next
  case False
  then have le: "i \<le> c" by simp
  have "(\<Sum>t<n. if t \<le> i \<and> t \<le> c then L ! i ! t * L ! c ! t else 0) =
      (\<Sum>t<n. if t \<le> i then L ! c ! t * L ! i ! t else 0)"
    using le by (intro sum.cong) auto
  also have "\<dots> = (\<Sum>t\<le>i. L ! c ! t * L ! i ! t)"
    by (rule sum_upto_restrict [OF i])
  also have "\<dots> = A ! c ! i"
    using f i c le by (simp add: factored_def)
  finally show ?thesis
    using sym i c by simp
qed

lemma llt_solve_correct:
  assumes sq: "square n A" and sym: "\<forall>i < n. \<forall>c < n. A ! i ! c = A ! c ! i"
    and ok: "m_info (llt A) = Success" and len: "length b = n" and i: "i < n"
  shows "(\<Sum>c<n. A ! i ! c * solve (llt A) b ! c) = b ! i"
proof -
  define L where "L = m_matrix (llt A)"
  define w where "w = solveL L n b"
  define x where "x = solveU L 0 w"
  have "factored n 0 A A"
    using sq by (simp add: factored_def)
  from unblocked_factored [OF this _ ok [unfolded llt_def]]
  have f: "factored n n A L"
    by (simp add: L_def llt_def)
  then have diag: "\<forall>r < n. L ! r ! r \<noteq> 0"
    by (auto simp: factored_def)
  have w: "\<forall>r < n. (\<Sum>t\<le>r. L ! r ! t * w ! t) = b ! r"
    using solveL_correct [of b L n] diag len by (simp add: w_def)
  have lw: "length w = n"
    by (simp add: w_def len)
  have x: "\<forall>r < n. (\<Sum>t = r..<n. L ! t ! r * x ! t) = w ! r"
    using solveU_correct [of w L 0] diag lw by (simp add: x_def)
  have sol: "solve (llt A) b = x"
    by (simp add: solve_def x_def w_def L_def len)
  have "(\<Sum>c<n. A ! i ! c * x ! c) =
      (\<Sum>c<n. \<Sum>t<n. if t \<le> i \<and> t \<le> c then L ! i ! t * L ! c ! t * x ! c else 0)"
  proof (intro sum.cong refl)
    fix c assume "c \<in> {..<n}"
    then have "c < n" by simp
    show "A ! i ! c * x ! c =
        (\<Sum>t<n. if t \<le> i \<and> t \<le> c then L ! i ! t * L ! c ! t * x ! c else 0)"
      unfolding factored_entry [OF f sym i \<open>c < n\<close>] sum_distrib_right
      by (intro sum.cong) auto
  qed
  also have "\<dots> = (\<Sum>t<n. \<Sum>c<n. if t \<le> i \<and> t \<le> c then L ! i ! t * L ! c ! t * x ! c else 0)"
    by (rule sum.swap)
  also have "\<dots> = (\<Sum>t<n. if t \<le> i then L ! i ! t * w ! t else 0)"
  proof (intro sum.cong refl)
    fix t assume "t \<in> {..<n}"
    then have t: "t < n" by simp
    show "(\<Sum>c<n. if t \<le> i \<and> t \<le> c then L ! i ! t * L ! c ! t * x ! c else 0) =
        (if t \<le> i then L ! i ! t * w ! t else 0)"
    proof (cases "t \<le> i")
      case False
      then show ?thesis by simp
    next
      case True
      have "(\<Sum>c<n. if t \<le> i \<and> t \<le> c then L ! i ! t * L ! c ! t * x ! c else 0) =
          (\<Sum>c<n. if t \<le> c then L ! i ! t * (L ! c ! t * x ! c) else 0)"
        using True by (intro sum.cong) auto
      also have "\<dots> = (\<Sum>c = t..<n. L ! i ! t * (L ! c ! t * x ! c))"
        by (rule sum_from_restrict)
      also have "\<dots> = L ! i ! t * (\<Sum>c = t..<n. L ! c ! t * x ! c)"
        by (simp add: sum_distrib_left)
      also have "\<dots> = L ! i ! t * w ! t"
        using x t by simp
      finally show ?thesis
        using True by simp
    qed
  qed
  also have "\<dots> = (\<Sum>t\<le>i. L ! i ! t * w ! t)"
    by (rule sum_upto_restrict [OF i])
  also have "\<dots> = b ! i"
    using w i by simp
  finally show ?thesis
    by (simp add: sol)
qed

lemma XtX_square: "square n (XtX n X)"
  by (simp add: square_def XtX_def list_all_length)

lemma XtX_sym: "i < n \<Longrightarrow> c < n \<Longrightarrow> XtX n X ! i ! c = XtX n X ! c ! i"
  by (simp add: XtX_def mult.commute)

lemma Choleski_normal_equations:
  assumes "m_info (llt (XtX n X)) = Success" and "i < n"
  shows "(\<Sum>c<n. XtX n X ! i ! c * Choleski n X y ! c) = Xty n X y ! i"
  unfolding Choleski_def Let_def
  by (rule llt_solve_correct [OF XtX_square _ assms(1) _ assms(2)]) (simp_all add: XtX_sym Xty_def)

subsection \<open>A design of rank three with four parameters\<close>

text \<open>
  Three voxels in a row at the positions (1, 1, 1), (2, 1, 1) and (3, 1, 1), with a basis
  of order 1: three columns of the design are equal.
\<close>

lemma XtX_planar:
  "XtX 4 [[1, 1, 1, 1], [1, 2, 1, 1], [1, 3, 1, 1]] =
     [[3, 6, 3, 3], [6, 14, 6, 6], [3, 6, 3, 3], [3, 6, 3, 3]]"
  by (simp add: XtX_def upt_rec numeral_eq_Suc)

lemma llt_planar:
  "m_info (llt [[3, 6, 3, 3], [6, 14, 6, 6], [3, 6, 3, 3], [3, 6, 3, 3]]) = NumericalIssue"
  by (simp add: llt_def unblocked.simps llt_column_def Let_def upt_rec power_divide power2_eq_square)

lemma Choleski_planar:
  "Choleski 4 [[1, 1, 1, 1], [1, 2, 1, 1], [1, 3, 1, 1]] [1, 1, 1] = [1, 0, 0, 0]"
  unfolding Choleski_def Let_def XtX_planar
  by (simp add: Xty_def llt_def unblocked.simps llt_column_def Let_def solve_def solveU.simps
      upt_rec power_divide power2_eq_square)

lemma run_planar:
  "run \<lparr>input_images = [[[Fin (exp 1)], [Fin (exp 1)], [Fin (exp 1)]]],
        orig_mask = [True, True, True],
        voxel2scanner = [(1, 1, 1), (2, 1, 1), (3, 1, 1)], order = 1, niter = 1,
        reference_value = 1, output_balanced = False\<rparr> =
   Inr \<lparr>out_images = [[[Fin 1], [Fin 1], [Fin 1]]],
        lognorm_scale = exp ((exp ((exp (1 / 3) + 1) / 3) + 1) / 3),
        final = \<lparr>mask = [True, True, True], prev_mask = [True, True, True],
                  num_voxels = 3, balance_factors = [1],
                  norm_field_weights = [1, 0, 0, 0], norm_field_log = [1, 1, 1],
                  norm_field_image = [exp 1, exp 1, exp 1],
                  trace = [Outlier_rejection 3, Iteration 1, Balance_pass 1,
                           Outlier_rejection 1.5, Balance_converged True, Fit_field]\<rparr>\<rparr>"
  by (simp add: run_def initialise_def refined_mask_def summed_image_def ValueAccumulator_def
        mask_refiner_def combined_image_def fmax0_def Let_def
        iterate_def outlier_rejection_def summed_log_value_def
        outlier_pass_eq quartile_index_lower quartile_index_upper
        outer_loop.simps balance_loop.simps balance_pass_def max_balance_iter_7
        fit_field_def field_basis_def field_y_def Choleski_planar dot_def finish_def
        compute_lognorm_scale_def LogNormScale_def output_image_def ReadInOutput_def)

text \<open>
  Claim C1, as stated, fails. For this design the matrix of the normal equations is not
  positive definite (the quadratic form vanishes at the vector (1, 0, -1, 0)), the
  factorisation records \<^verbatim>\<open>NumericalIssue\<close>, and the solver returns the vector (1, 0, 0, 0).
  The command, which meets this design in its field fit, returns a result.
\<close>

theorem rank_deficient_solve_returns:
  "(let X = [[1, 1, 1, 1], [1, 2, 1, 1], [1, 3, 1, 1]];
        v = [1, 0, - 1, 0]
    in dot v (map (\<lambda>row. dot row v) (XtX 4 X)) = 0 \<and>
       m_info (llt (XtX 4 X)) = NumericalIssue \<and>
       Choleski 4 X [1, 1, 1] = [1, 0, 0, 0]) \<and>
   (\<exists>r. run \<lparr>input_images = [[[Fin (exp 1)], [Fin (exp 1)], [Fin (exp 1)]]],
               orig_mask = [True, True, True],
               voxel2scanner = [(1, 1, 1), (2, 1, 1), (3, 1, 1)], order = 1, niter = 1,
               reference_value = 1, output_balanced = False\<rparr> = Inr r \<and>
        field_basis \<lparr>n_tissue_types = 1, combined_tissue = [[exp 1], [exp 1], [exp 1]],
                     initial_mask = [True, True, True],
                     scanner_pos = [(1, 1, 1), (2, 1, 1), (3, 1, 1)],
                     n_basis_vecs = 4, log_ref_value = 0, max_iter = 1\<rparr> (final r) =
          [[1, 1, 1, 1], [1, 2, 1, 1], [1, 3, 1, 1]] \<and>
        norm_field_weights (final r) = [1, 0, 0, 0])"
proof -
  have "dot [1, 0, - 1, 0]
      (map (\<lambda>row. dot row [1, 0, - 1, 0]) (XtX 4 [[1, 1, 1, 1], [1, 2, 1, 1], [1, 3, 1, 1]])) = 0"
    unfolding XtX_planar by (simp add: dot_def)
  moreover have "m_info (llt (XtX 4 [[1, 1, 1, 1], [1, 2, 1, 1], [1, 3, 1, 1]])) = NumericalIssue"
    unfolding XtX_planar by (rule llt_planar)
  ultimately show ?thesis
    unfolding run_planar Let_def
    by (simp add: Choleski_planar field_basis_def)
qed

lemma log_sum_loop_exception:
  "log_sum_loop j bs acc = Inl a \<Longrightarrow> \<exists>k v. v \<le> 0 \<and> a = Exception (NonPositiveBalanceFactor k v)"
proof (induction bs arbitrary: j acc)
  case Nil
  then show ?case by simp
next
  case (Cons b bs)
  show ?case
  proof (cases "b \<le> 0")
    case True
    with Cons.prems show ?thesis by auto
  next
    case False
    with Cons.prems have "log_sum_loop (j + 1) bs (acc + ln b) = Inl a" by simp
    then show ?thesis by (rule Cons.IH)
  qed
qed

lemma estimate_balance_exception:
  assumes "estimate_balance e s = Inl a"
  shows "\<exists>k v. v \<le> 0 \<and> a = Exception (NonPositiveBalanceFactor k v)"
proof (cases "log_sum_loop 0 (Choleski (n_tissue_types e) (balance_X e s)
                                (replicate (num_voxels s) 1)) 0")
  case (Inl b)
  with assms have "a = b"
    by (simp add: estimate_balance_def Let_def)
  with log_sum_loop_exception [OF Inl] show ?thesis by simp
next
  case (Inr S)
  with assms show ?thesis
    by (simp add: estimate_balance_def Let_def)
qed

text \<open>
  Claim C1, amended. For every design and target the solver returns a vector with one
  entry for each column of the design, whether the factorisation succeeded or not; it has
  no error to report. When the factorisation succeeds, the vector solves the normal
  equations. The balance estimation, which calls the solver, aborts only with the
  exception for a factor that is not positive; and after a balance loop that returns, the
  outer iteration goes on with the fitted field: the field fit, which calls the solver,
  does not abort.
\<close>

theorem Choleski_result:
  "length (Choleski n X y) = n \<and>
   (m_info (llt (XtX n X)) = Success \<longrightarrow>
      (\<forall>i < n. (\<Sum>c<n. XtX n X ! i ! c * Choleski n X y ! c) = Xty n X y ! i)) \<and>
   (estimate_balance e s = Inl a \<longrightarrow>
      (\<exists>k v. v \<le> 0 \<and> a = Exception (NonPositiveBalanceFactor k v))) \<and>
   (it \<le> max_iter e' \<and>
    balance_loop e' 1 False (s'\<lparr>trace := trace s' @ [Iteration it]\<rparr>) = Inr s1 \<longrightarrow>
      outer_loop e' it s' = outer_loop e' (it + 1) (fit_field e' s1))"
proof -
  have "outer_loop e' it s' = outer_loop e' (it + 1) (fit_field e' s1)"
    if "it \<le> max_iter e'"
      "balance_loop e' 1 False (s'\<lparr>trace := trace s' @ [Iteration it]\<rparr>) = Inr s1"
    using that by (subst outer_loop.simps) simp
  then show ?thesis
    using Choleski_normal_equations [of n X _ y] estimate_balance_exception [of e s a]
    by simp
qed

theorem Choleski_result_witness:
  "(let X = [[1/2, 0], [0, 1/2]]; y = [1, 1]
    in m_info (llt (XtX 2 X)) = Success \<and> Choleski 2 X y = [2, 2] \<and>
       (\<Sum>c<2. XtX 2 X ! 0 ! c * Choleski 2 X y ! c) = Xty 2 X y ! 0 \<and>
       (\<Sum>c<2. XtX 2 X ! 1 ! c * Choleski 2 X y ! c) = Xty 2 X y ! 1) \<and>
   estimate_balance
     \<lparr>n_tissue_types = 2, combined_tissue = [[1, 1], [1, 1], [1, 1]],
      initial_mask = [True, True, True], scanner_pos = [(0, 0, 0), (1, 0, 0), (2, 0, 0)],
      n_basis_vecs = 1, log_ref_value = 0, max_iter = 15\<rparr>
     \<lparr>mask = [True, True, True], prev_mask = [True, True, True],
      num_voxels = 3, balance_factors = [1, 1], norm_field_weights = [],
      norm_field_log = [0, 0, 0], norm_field_image = [1, 1, 1],
      trace = [Outlier_rejection 3]\<rparr> = Inl (Exception (NonPositiveBalanceFactor 2 0)) \<and>
   (let e = \<lparr>n_tissue_types = 1, combined_tissue = [[1], [1], [1]],
             initial_mask = [True, True, True],
             scanner_pos = [(1, 1, 1), (2, 1, 1), (3, 1, 1)],
             n_basis_vecs = 4, log_ref_value = 0, max_iter = 1\<rparr>;
        s = \<lparr>mask = [True, True, True], prev_mask = [True, True, True],
             num_voxels = 3, balance_factors = [1], norm_field_weights = [],
             norm_field_log = [0, 0, 0], norm_field_image = [1, 1, 1],
             trace = [Outlier_rejection 3]\<rparr>;
        s1 = s\<lparr>trace := [Outlier_rejection 3, Iteration 1, Balance_pass 1,
                            Outlier_rejection 1.5, Balance_converged True]\<rparr>
    in 1 \<le> max_iter e \<and>
       balance_loop e 1 False (s\<lparr>trace := trace s @ [Iteration 1]\<rparr>) = Inr s1 \<and>
       outer_loop e 1 s = outer_loop e 2 (fit_field e s1))"
proof -
  define e1 where "e1 = \<lparr>n_tissue_types = 2, combined_tissue = [[1, 1], [1, 1], [1, 1 :: real]],
      initial_mask = [True, True, True], scanner_pos = [(0, 0, 0), (1, 0, 0), (2, 0, 0 :: real)],
      n_basis_vecs = 1, log_ref_value = 0, max_iter = 15\<rparr>"
  define s1 where "s1 = \<lparr>mask = [True, True, True], prev_mask = [True, True, True],
      num_voxels = 3, balance_factors = [1, 1 :: real], norm_field_weights = [],
      norm_field_log = [0, 0, 0], norm_field_image = [1, 1, 1],
      trace = [Outlier_rejection 3]\<rparr>"
  define e where "e = \<lparr>n_tissue_types = 1, combined_tissue = [[1], [1], [1 :: real]],
             initial_mask = [True, True, True],
             scanner_pos = [(1, 1, 1), (2, 1, 1), (3, 1, 1 :: real)],
             n_basis_vecs = 4, log_ref_value = 0, max_iter = 1\<rparr>"
  define s where "s = \<lparr>mask = [True, True, True], prev_mask = [True, True, True],
             num_voxels = 3, balance_factors = [1 :: real], norm_field_weights = [],
             norm_field_log = [0, 0, 0], norm_field_image = [1, 1, 1],
             trace = [Outlier_rejection 3]\<rparr>"
  define s2 where "s2 = s\<lparr>trace := [Outlier_rejection 3, Iteration 1, Balance_pass 1,
                            Outlier_rejection 1.5, Balance_converged True]\<rparr>"
  define a where "a = Exception (NonPositiveBalanceFactor 2 0)"
  have ok: "m_info (llt (XtX 2 [[1/2, 0], [0, 1/2]])) = Success"
    by (simp add: XtX_def llt_def unblocked.simps llt_column_def Let_def numeral_2_eq_2
        power_divide real_sqrt_divide)
  have est: "estimate_balance e1 s1 = Inl a"
    using Choleski_identical
    by (simp add: estimate_balance_def Let_def e1_def s1_def a_def balance_X_def numeral_3_eq_3)
  have it: "1 \<le> max_iter e"
    by (simp add: e_def)
  have inner: "balance_loop e 1 False (s\<lparr>trace := trace s @ [Iteration 1]\<rparr>) = Inr s2"
    by (simp add: e_def s_def s2_def balance_loop.simps balance_pass_def max_balance_iter_7
        outlier_rejection_def summed_log_value_def outlier_pass_eq
        quartile_index_lower quartile_index_upper Let_def)
  note R = Choleski_result [of 2 "[[1/2, 0], [0, 1/2]]" "[1, 1]" e1 s1 a 1 e s s2]
  from R ok
  have "\<forall>i < 2. (\<Sum>c<2. XtX 2 [[1/2, 0], [0, 1/2]] ! i ! c *
                        Choleski 2 [[1/2, 0], [0, 1/2]] [1, 1] ! c) =
                 Xty 2 [[1/2, 0], [0, 1/2]] [1, 1] ! i"
    by blast
  then have sol: "(\<Sum>c<2. XtX 2 [[1/2, 0], [0, 1/2]] ! 0 ! c *
                        Choleski 2 [[1/2, 0], [0, 1/2]] [1, 1] ! c) =
                 Xty 2 [[1/2, 0], [0, 1/2]] [1, 1] ! 0"
    "(\<Sum>c<2. XtX 2 [[1/2, 0], [0, 1/2]] ! 1 ! c *
                        Choleski 2 [[1/2, 0], [0, 1/2]] [1, 1] ! c) =
                 Xty 2 [[1/2, 0], [0, 1/2]] [1, 1] ! 1"
    by simp_all
  from R it inner have "outer_loop e 1 s = outer_loop e (1 + 1) (fit_field e s2)"
    by blast
  then have outer: "outer_loop e 1 s = outer_loop e 2 (fit_field e s2)"
    by (simp only: one_add_one)
  show ?thesis
    unfolding Let_def e1_def [symmetric] s1_def [symmetric]
      e_def [symmetric] s_def [symmetric] s2_def [symmetric] a_def [symmetric]
    by (intro conjI ok Choleski_half sol est it inner outer)
qed

end
